theory Spec2Isabelle
  imports Main "HOL-Library.Word"
begin

unbundle bit_operations_syntax

section \<open>Failures\<close>

text \<open>
  Every way in which the two source files can stop without a result is a value:
  a failed \<open>assert\<close> (debug builds only), a call through a null pointer, a \<open>strcat\<close>
  beyond the end of its destination array, a read that starts beyond the terminator of
  the C string it was given, and a read that runs beyond the end of the array it started
  in. Where a function has an \<open>assert\<close>, its model takes the flag \<open>debug\<close>: in a debug build
  the assertion is checked, in a product build it is compiled out and the code behind it
  runs.
\<close>

datatype error =
  Assert_failed | Null_dereference | Buffer_overflow | Read_past_terminator | Read_past_array

section \<open>Out-of-line stubs: \<open>c2_CodeStubs_riscv.cpp\<close>\<close>

subsection \<open>The assembler the stubs write to\<close>

datatype Register = t0 | ra | xthread

datatype Label = entry | guard | continuation

datatype RelocationHolder = internal_word nat | entry_guard

text \<open>The calls of the source that append instructions, with their operands.\<close>

datatype prim =
    La_patchable Register nat
  | Addi Register Register int
  | Sd Register Register int
  | Far_jump nat
  | Movptr Register nat
  | Jalr Register Register int
  | J Label

text \<open>
  Modelled from the spec: the instruction encoder (\<open>MacroAssembler\<close>) is not part of the two
  source files. The spec lists its primitives (label binding, relocatable address
  materialisation, store, far jump, register-indirect call with offset, raw-word emission,
  alignment directive) and says that the encoded length depends on the distance to the
  relocation target. So the number of bytes a call appends at a given position, and the low
  offset an address materialisation hands back through its reference parameter, are
  parameters of the model.
\<close>

record encoder =
  insn_bytes :: "prim \<Rightarrow> nat \<Rightarrow> nat"
  out_offset :: "prim \<Rightarrow> nat \<Rightarrow> int"

text \<open>What ends up in the code buffer, each item with the address it was put at.\<close>

datatype emitted =
    Code prim nat
  | Reloc RelocationHolder nat
  | Padding nat nat
  | Int32 "32 word" nat

record C2_MacroAssembler =
  code_begin :: nat
  pc :: nat
  emitted :: "emitted list"
  labels :: "Label \<Rightarrow> nat option"

text \<open>
  Modelled from the spec: \<open>offset()\<close> is the distance of the current position from the start
  of the code, and a primitive that emits code appends its encoding at the current position
  and moves the position behind it.
\<close>

definition offset :: "C2_MacroAssembler \<Rightarrow> nat" where
  "offset masm = pc masm - code_begin masm"

definition emit_prim :: "encoder \<Rightarrow> prim \<Rightarrow> C2_MacroAssembler \<Rightarrow> C2_MacroAssembler" where
  "emit_prim enc p masm =
     masm\<lparr>pc := pc masm + insn_bytes enc p (pc masm),
          emitted := emitted masm @ [Code p (pc masm)]\<rparr>"

text \<open>Modelled from the spec: label binding; the label now names the current position.\<close>

definition bind :: "Label \<Rightarrow> C2_MacroAssembler \<Rightarrow> C2_MacroAssembler" where
  "bind l masm = masm\<lparr>labels := (labels masm)(l := Some (pc masm))\<rparr>"

text \<open>
  Modelled from the spec: relocation metadata is attached at the current position, then the
  patch-site callback (if any) emits the instructions it covers.
\<close>

definition relocate ::
  "RelocationHolder \<Rightarrow> (C2_MacroAssembler \<Rightarrow> C2_MacroAssembler) \<Rightarrow>
   C2_MacroAssembler \<Rightarrow> C2_MacroAssembler" where
  "relocate rspec body masm = body (masm\<lparr>emitted := emitted masm @ [Reloc rspec (pc masm)]\<rparr>)"

text \<open>
  Modelled from the spec: the alignment directive pads up to the next position that is a
  multiple of the modulus (``explicit padding so its address is a multiple of 4 bytes'').
\<close>

definition align :: "nat \<Rightarrow> C2_MacroAssembler \<Rightarrow> C2_MacroAssembler" where
  "align modulus masm =
     (let pad = (modulus - pc masm mod modulus) mod modulus
      in masm\<lparr>pc := pc masm + pad, emitted := emitted masm @ [Padding pad (pc masm)]\<rparr>)"

text \<open>Modelled from the spec: raw-word emission appends one 32-bit word, four bytes.\<close>

definition emit_int32 :: "32 word \<Rightarrow> C2_MacroAssembler \<Rightarrow> C2_MacroAssembler" where
  "emit_int32 w masm =
     masm\<lparr>pc := pc masm + 4, emitted := emitted masm @ [Int32 w (pc masm)]\<rparr>"

text \<open>
  The runtime values the stubs read: the entry point of the polling-page return handler
  blob (\<open>None\<close> while the blob is not created), the offset of the saved-exception-pc slot in
  the thread, and the address of the method entry barrier routine.
\<close>

record runtime =
  polling_page_return_handler_blob :: "nat option"
  saved_exception_pc_offset :: int
  method_entry_barrier :: nat

subsection \<open>\<open>C2SafepointPollStub\<close>\<close>

record C2SafepointPollStub =
  safepoint_offset :: nat

definition C2SafepointPollStub_max_size :: nat where
  "C2SafepointPollStub_max_size = 13 * 4"

definition C2SafepointPollStub_emit ::
  "bool \<Rightarrow> encoder \<Rightarrow> runtime \<Rightarrow> C2SafepointPollStub \<Rightarrow> C2_MacroAssembler \<Rightarrow>
   error + C2_MacroAssembler" where
  "C2SafepointPollStub_emit debug enc rt this masm =
     (case polling_page_return_handler_blob rt of
        None \<Rightarrow> Inl (if debug then Assert_failed else Null_dereference)
      | Some stub \<Rightarrow>
          let callback_addr = stub;
              masm = bind entry masm;
              safepoint_pc = pc masm - offset masm + safepoint_offset this;
              masm = relocate (internal_word safepoint_pc)
                       (\<lambda>masm.
                          let offset = out_offset enc (La_patchable t0 safepoint_pc) (pc masm);
                              masm = emit_prim enc (La_patchable t0 safepoint_pc) masm
                          in emit_prim enc (Addi t0 t0 offset) masm)
                       masm;
              masm = emit_prim enc (Sd t0 xthread (saved_exception_pc_offset rt)) masm
          in Inr (emit_prim enc (Far_jump callback_addr) masm))"

subsection \<open>\<open>C2EntryBarrierStub\<close>\<close>

definition C2EntryBarrierStub_max_size :: nat where
  "C2EntryBarrierStub_max_size = 8 * 4 + 4"

definition C2EntryBarrierStub_emit ::
  "encoder \<Rightarrow> runtime \<Rightarrow> C2_MacroAssembler \<Rightarrow> C2_MacroAssembler" where
  "C2EntryBarrierStub_emit enc rt masm =
     (let masm = bind entry masm;
          offset = out_offset enc (Movptr t0 (method_entry_barrier rt)) (pc masm);
          masm = emit_prim enc (Movptr t0 (method_entry_barrier rt)) masm;
          masm = emit_prim enc (Jalr ra t0 offset) masm;
          masm = emit_prim enc (J continuation) masm;
          masm = align 4 masm;
          masm = bind guard masm;
          masm = relocate entry_guard (\<lambda>masm. masm) masm
      in emit_int32 0 masm)"

section \<open>CPU feature detection: \<open>vm_version_linux_riscv.cpp\<close>\<close>

text \<open>
  The detection pass \<open>setup_cpu_available_features\<close> and the functions it calls.
  \<open>cpu_vector_length\<close>, which reads a control register of the hart, is outside the model.
\<close>

subsection \<open>The feature registry\<close>

datatype VM_MODE = VM_NOTSET | VM_MBARE | VM_SV39 | VM_SV48 | VM_SV57 | VM_SV64

text \<open>
  What a feature's numeric value slot can hold. The integer codes of the enumerations and
  the default argument of \<open>enable_feature\<close> are declared in a header that is not part of
  the two source files, so a value is kept by what was stored: nothing yet, the default
  argument, a number read from the hardware, a translation mode, or the fast
  misaligned-access marker.
\<close>

datatype feature_value = No_value | Default_value | Number int | Mode VM_MODE | MISALIGNED_FAST

text \<open>
  The static feature objects that the source names, and \<open>other_feature\<close> for any further
  entry of the registry.
\<close>

datatype feature =
    ext_I | ext_M | ext_A | ext_F | ext_D | ext_C | ext_Q | ext_H | ext_V
  | ext_Zicbom | ext_Zicboz | ext_Zicbop
  | ext_Zba | ext_Zbb | ext_Zbc | ext_Zbs
  | ext_Zicsr | ext_Zifencei | ext_Zic64b | ext_Zihintpause
  | unaligned_access | satp_mode | mvendorid
  | other_feature nat

text \<open>
  Modelled from the spec: the class of a registry entry (\<open>RVFeatureValue\<close>) is declared in a
  header that is not part of the two source files. The spec's Extension has a name and
  display token (\<open>pretty\<close>, the characters of a C string), a marker whether it shows in the
  features string, a bit, an enabled flag and an optional numeric value.
\<close>

record RVFeatureValue =
  pretty :: string
  feature_string :: bool
  feature_bit :: "64 word"
  enabled :: bool
  val :: feature_value

text \<open>Modelled from the spec: enabling sets the flag and stores the value; nothing disables.\<close>

definition enable_feature :: "feature_value \<Rightarrow> RVFeatureValue \<Rightarrow> RVFeatureValue" where
  "enable_feature v this = this\<lparr>enabled := True, val := v\<rparr>"

text \<open>
  The calls that leave the process or the registry: the hardware probe with its outcome,
  \<open>getauxval\<close>, \<open>fopen\<close> with its outcome, every \<open>fgets\<close> with the line it returned, \<open>fclose\<close>,
  a store that falls outside the block it was aimed at, and \<open>update_flag\<close> of a feature
  (its effect is on the global flags, which are outside the two source files).
\<close>

datatype os_event =
    Probe_features bool
  | Getauxval
  | Fopen bool
  | Fgets "string option"
  | Fclose
  | Store_outside_block
  | Update_flag feature

text \<open>
  Modelled from the spec: the detection sources. The hardware probe reports failure
  (\<open>None\<close>) or success, and on success has populated the registry; the capability bitmask
  is the value of \<open>getauxval(AT_HWCAP)\<close>; the pseudo-file is its bytes, or \<open>None\<close> when it
  cannot be opened. The line buffer of the scan is a local array that is not initialised:
  \<open>stack\<close> gives the byte that each of its positions holds when the scan starts.
\<close>

record os_env =
  hwprobe :: "((feature \<Rightarrow> RVFeatureValue) \<Rightarrow> (feature \<Rightarrow> RVFeatureValue)) option"
  auxv :: "64 word"
  cpuinfo :: "string option"
  stack :: "nat \<Rightarrow> char"

text \<open>
  The static state of \<open>VM_Version\<close>: the registry in its fixed order (the entries of
  \<open>_feature_list\<close> before the terminating null pointer), the feature objects it points to,
  the aggregate mask, the features string (null until it is set), and the calls made so
  far.
\<close>

record VM_Version =
  feature_list :: "feature list"
  feats :: "feature \<Rightarrow> RVFeatureValue"
  features :: "64 word"
  features_string :: "string option"
  calls :: "os_event list"

text \<open>\<open>f.enable_feature(v)\<close> on a named feature object of the state.\<close>

definition enable :: "feature \<Rightarrow> feature_value \<Rightarrow> VM_Version \<Rightarrow> VM_Version" where
  "enable f v s = s\<lparr>feats := (feats s)(f := enable_feature v (feats s f))\<rparr>"

text \<open>
  Modelled from the spec: \<open>nth_bit\<close> is a macro of a header that is not part of the two
  source files; a registry entry has a bit position, and \<open>nth_bit n\<close> is the word with only
  that bit set (no bit for a position beyond the word). The source defines the kernel's
  \<open>HWCAP_ISA_I\<close>, \<open>HWCAP_ISA_M\<close>, ... with it, from the distance of the letter to \<open>A\<close>, and
  asserts at the start of the detection pass that the nine single-letter entries sit on
  those bits.
\<close>

definition nth_bit :: "nat \<Rightarrow> 64 word" where
  "nth_bit n = (if 64 \<le> n then 0 else push_bit n 1)"

definition HWCAP_ISA :: "char \<Rightarrow> 64 word" where
  "HWCAP_ISA letter = nth_bit (of_char letter - of_char CHR ''A'')"

definition hwcap_asserts :: "VM_Version \<Rightarrow> bool" where
  "hwcap_asserts s \<longleftrightarrow>
     feature_bit (feats s ext_I) = HWCAP_ISA CHR ''I'' \<and>
     feature_bit (feats s ext_M) = HWCAP_ISA CHR ''M'' \<and>
     feature_bit (feats s ext_A) = HWCAP_ISA CHR ''A'' \<and>
     feature_bit (feats s ext_F) = HWCAP_ISA CHR ''F'' \<and>
     feature_bit (feats s ext_D) = HWCAP_ISA CHR ''D'' \<and>
     feature_bit (feats s ext_C) = HWCAP_ISA CHR ''C'' \<and>
     feature_bit (feats s ext_Q) = HWCAP_ISA CHR ''Q'' \<and>
     feature_bit (feats s ext_H) = HWCAP_ISA CHR ''H'' \<and>
     feature_bit (feats s ext_V) = HWCAP_ISA CHR ''V''"

subsection \<open>C strings and the standard library\<close>

text \<open>
  A C string is the bytes before the first NUL. \<open>strchr\<close> hands back the string from the
  first occurrence of the character on, \<open>strcspn\<close> the length of the part before it (the
  source only ever rejects the newline), \<open>strcat\<close> appends, and fails when the result and
  its terminator do not fit the destination array of \<open>n\<close> bytes; \<open>tolower\<close> is that of the C
  locale. \<open>strcmp\<close> against a literal is equality, \<open>strncmp\<close> against a literal of \<open>k\<close>
  characters is equality of the first \<open>k\<close>.
\<close>

definition cstr :: "string \<Rightarrow> string" where
  "cstr bytes = takeWhile (\<lambda>c. c \<noteq> CHR 0x00) bytes"

definition strchr :: "string \<Rightarrow> char \<Rightarrow> string option" where
  "strchr s c = (case dropWhile (\<lambda>x. x \<noteq> c) s of [] \<Rightarrow> None | x # xs \<Rightarrow> Some (x # xs))"

definition strcspn :: "string \<Rightarrow> char \<Rightarrow> nat" where
  "strcspn s c = length (takeWhile (\<lambda>x. x \<noteq> c) s)"

definition strcat :: "nat \<Rightarrow> string \<Rightarrow> string \<Rightarrow> error + string" where
  "strcat n dest src =
     (if length dest + length src < n then Inr (dest @ src) else Inl Buffer_overflow)"

definition tolower :: "char \<Rightarrow> char" where
  "tolower c =
     (if (65::nat) \<le> of_char c \<and> of_char c \<le> (90::nat) then char_of (of_char c + (32::nat))
      else c)"

text \<open>
  \<open>fgets(buf, n, f)\<close> on the bytes still unread: nothing at end of file, otherwise the bytes
  up to and including the first newline, at most \<open>n - 1\<close> of them, and the rest of the file.
\<close>

definition fgets :: "nat \<Rightarrow> string \<Rightarrow> (string \<times> string) option" where
  "fgets n f =
     (if f = [] then None
      else
        let upto_newline = takeWhile (\<lambda>c. c \<noteq> CHR ''\<newline>'') f @
                           take 1 (dropWhile (\<lambda>c. c \<noteq> CHR ''\<newline>'') f);
            line = take (n - 1) upto_newline
        in Some (line, drop (length line) f))"

text \<open>
  What \<open>fgets\<close> does to the array it is given: the bytes it has read and a terminator go to
  its start, and the bytes behind the terminator stay as they were.
\<close>

definition store_line :: "string \<Rightarrow> string \<Rightarrow> string" where
  "store_line line buf = line @ CHR 0x00 # drop (length line + 1) buf"

subsection \<open>The detection steps\<close>

text \<open>
  The loops over \<open>_feature_list\<close> run over the registry in its order. Logging
  (\<open>log_debug\<close>) and \<open>os::free\<close> have no part in what is computed and are left out.
\<close>

fun os_aux_loop :: "64 word \<Rightarrow> feature list \<Rightarrow> VM_Version \<Rightarrow> VM_Version" where
  "os_aux_loop hwcap [] s = s"
| "os_aux_loop hwcap (f # fs) s =
     os_aux_loop hwcap fs
       (if feature_bit (feats s f) AND hwcap \<noteq> 0 then enable f Default_value s else s)"

definition os_aux_features :: "os_env \<Rightarrow> VM_Version \<Rightarrow> VM_Version" where
  "os_aux_features env s =
     os_aux_loop (auxv env) (feature_list s) (s\<lparr>calls := calls s @ [Getauxval]\<rparr>)"

definition parse_satp_mode :: "string \<Rightarrow> VM_MODE" where
  "parse_satp_mode vm_mode =
     (if vm_mode = ''sv39'' then VM_SV39
      else if vm_mode = ''sv48'' then VM_SV48
      else if vm_mode = ''sv57'' then VM_SV57
      else if vm_mode = ''sv64'' then VM_SV64
      else VM_MBARE)"

text \<open>
  The body of the scanning loop. \<open>buf\<close> is the array of 512 bytes as \<open>fgets\<close> has left it;
  the line is the C string at its start, and \<open>p\<close> is the line from its first colon on.
  \<open>os::strdup(p + 2)\<close> copies the C string that starts two bytes behind the colon, wherever
  that is in the array: inside the line, at its terminator, or, when the line ends at its
  colon, behind the terminator, in the bytes that earlier calls of \<open>fgets\<close> or nobody has
  written. The copy is a block of those characters and a terminator. The store of the
  terminator then goes to index \<open>strcspn(p, "\n")\<close> of that block, and changes it only when
  that index lies inside. When no NUL follows in the array, the copy runs beyond its end.
\<close>

definition cpuinfo_line ::
  "string \<Rightarrow> VM_MODE \<Rightarrow> string option \<Rightarrow> error + (VM_MODE \<times> string option \<times> os_event list)" where
  "cpuinfo_line buf mode ret =
     (case strchr (cstr buf) CHR '':'' of
        None \<Rightarrow> Inr (mode, ret, [])
      | Some p \<Rightarrow>
          let mode = (if mode = VM_NOTSET \<and> take 3 (cstr buf) = ''mmu'' then parse_satp_mode p
                      else mode)
          in if ret = None \<and> take 5 (cstr buf) = ''uarch'' then
               (let colon = length (cstr buf) - length p;
                    bytes = drop (colon + 2) (take 512 buf)
                in if CHR 0x00 \<notin> set bytes then Inl Read_past_array
                   else
                     let block = cstr bytes @ [CHR 0x00];
                         k = strcspn p CHR ''\<newline>''
                     in if k < length block
                        then Inr (mode, Some (cstr (block[k := CHR 0x00])), [])
                        else Inr (mode, Some (cstr block), [Store_outside_block]))
             else Inr (mode, ret, []))"

text \<open>
  The loop: \<open>fgets\<close> is called first, and only when it has returned a line are the two
  fields tested. \<open>f\<close> is what is left of the file, \<open>buf\<close> the array, which is \<open>line_buffer\<close>
  when the scan starts.
\<close>

definition line_buffer :: "os_env \<Rightarrow> string" where
  "line_buffer env = map (stack env) [0..<512]"

function cpuinfo_loop ::
  "string \<Rightarrow> string \<Rightarrow> VM_MODE \<Rightarrow> string option \<Rightarrow> os_event list \<Rightarrow>
   error + (VM_MODE \<times> string option \<times> os_event list)" where
  "cpuinfo_loop f buf mode ret tr =
     (case fgets 512 f of
        None \<Rightarrow> Inr (mode, ret, tr @ [Fgets None])
      | Some (line, f') \<Rightarrow>
          if mode = VM_NOTSET \<or> ret = None then
            (case cpuinfo_line (store_line line buf) mode ret of
               Inl e \<Rightarrow> Inl e
             | Inr (mode', ret', ev) \<Rightarrow>
                 cpuinfo_loop f' (store_line line buf) mode' ret' (tr @ [Fgets (Some line)] @ ev))
          else Inr (mode, ret, tr @ [Fgets (Some line)]))"
  by pat_completeness auto
termination
proof (relation "measure (\<lambda>(f, buf, mode, ret, tr). length f)")
  show "wf (measure (\<lambda>(f, buf, mode, ret, tr). length f))"
    by simp
next
  fix f buf :: string and mode :: VM_MODE and ret :: "string option" and tr :: "os_event list"
    and x2 line f' and x2a :: "VM_MODE \<times> string option \<times> os_event list"
    and a :: VM_MODE and b and aa :: "string option" and ba
  assume got: "fgets 512 f = Some x2" "(line, f') = x2"
  define upto where
    "upto = takeWhile (\<lambda>c. c \<noteq> CHR ''\<newline>'') f @
            take 1 (dropWhile (\<lambda>c. c \<noteq> CHR ''\<newline>'') f)"
  from got have ne: "f \<noteq> []"
    by (auto simp: fgets_def split: if_splits)
  then obtain c cs where f: "f = c # cs"
    by (cases f) auto
  have "upto \<noteq> []"
    unfolding upto_def by (simp add: f)
  then have "take 511 upto \<noteq> []"
    by (cases upto) simp_all
  moreover have "fgets 512 f = Some (take 511 upto, drop (length (take 511 upto)) f)"
    unfolding fgets_def Let_def upto_def using ne by simp
  then have "line = take 511 upto" "f' = drop (length line) f"
    using got by simp_all
  ultimately have "length f' < length f"
    using ne by (cases line) auto
  then show "((f', store_line line buf, a, aa, tr @ [Fgets (Some line)] @ ba),
              f, buf, mode, ret, tr)
             \<in> measure (\<lambda>(f, buf, mode, ret, tr). length f)"
    by simp
qed

definition os_uarch_additional_features ::
  "os_env \<Rightarrow> VM_Version \<Rightarrow> error + (string option \<times> VM_Version)" where
  "os_uarch_additional_features env s =
     (case cpuinfo env of
        None \<Rightarrow> Inr (None, s\<lparr>calls := calls s @ [Fopen False]\<rparr>)
      | Some f \<Rightarrow>
          (case cpuinfo_loop f (line_buffer env) VM_NOTSET None (calls s @ [Fopen True]) of
             Inl e \<Rightarrow> Inl e
           | Inr (mode, ret, tr) \<Rightarrow>
               let mode = (if mode = VM_NOTSET then VM_MBARE else mode);
                   s = s\<lparr>calls := tr @ [Fclose]\<rparr>
               in Inr (ret, enable satp_mode (Mode mode) s)))"

definition RIVOS_MVENDORID :: int where
  "RIVOS_MVENDORID = 0x6cf"

definition rivos_features :: "VM_Version \<Rightarrow> VM_Version" where
  "rivos_features s =
     fold (\<lambda>statement s. statement s)
       [enable ext_I Default_value, enable ext_M Default_value, enable ext_A Default_value,
        enable ext_F Default_value, enable ext_D Default_value, enable ext_C Default_value,
        enable ext_Q Default_value, enable ext_H Default_value, enable ext_V Default_value,
        enable ext_Zicbom Default_value, enable ext_Zicboz Default_value,
        enable ext_Zicbop Default_value,
        enable ext_Zba Default_value, enable ext_Zbb Default_value,
        enable ext_Zbc Default_value, enable ext_Zbs Default_value,
        enable ext_Zicsr Default_value, enable ext_Zifencei Default_value,
        enable ext_Zic64b Default_value, enable ext_Zihintpause Default_value,
        enable unaligned_access MISALIGNED_FAST,
        enable satp_mode (Mode VM_SV48)]
       s"

definition vendor_features :: "VM_Version \<Rightarrow> VM_Version" where
  "vendor_features s =
     (if \<not> enabled (feats s mvendorid) then s
      else if val (feats s mvendorid) = Number RIVOS_MVENDORID then rivos_features s
      else s)"

subsection \<open>Finalisation\<close>

text \<open>
  The block that appends one feature's token \<open>tmp\<close> to \<open>buf\<close>, an array of 1024 bytes. With
  an empty name a product build appends the underscore and then reads from one byte
  beyond the name's terminator.
\<close>

definition feature_token :: "bool \<Rightarrow> string \<Rightarrow> string \<Rightarrow> error + string" where
  "feature_token debug buf tmp =
     (if length tmp = 1 then strcat 1024 buf tmp
      else if debug \<and> \<not> 1 < length tmp then Inl Assert_failed
      else
        (case tmp of
           [] \<Rightarrow>
             (case strcat 1024 buf ''_'' of
                Inl e \<Rightarrow> Inl e
              | Inr buf \<Rightarrow> Inl Read_past_terminator)
         | c # rest \<Rightarrow>
             (case strcat 1024 buf [CHR ''_'', tolower c] of
                Inl e \<Rightarrow> Inl e
              | Inr buf \<Rightarrow> strcat 1024 buf rest)))"

fun feature_loop ::
  "bool \<Rightarrow> feature list \<Rightarrow> string \<Rightarrow> VM_Version \<Rightarrow> error + (string \<times> VM_Version)" where
  "feature_loop debug [] buf s = Inr (buf, s)"
| "feature_loop debug (f # fs) buf s =
     (if enabled (feats s f) then
        (case (if feature_string (feats s f) then feature_token debug buf (pretty (feats s f))
               else Inr buf) of
           Inl e \<Rightarrow> Inl e
         | Inr buf \<Rightarrow>
             let s = (if feature_bit (feats s f) \<noteq> 0
                      then s\<lparr>features := features s OR feature_bit (feats s f)\<rparr> else s);
                 s = s\<lparr>calls := calls s @ [Update_flag f]\<rparr>
             in feature_loop debug fs buf s)
      else feature_loop debug fs buf s)"

definition setup_cpu_available_features ::
  "bool \<Rightarrow> os_env \<Rightarrow> VM_Version \<Rightarrow> error + VM_Version" where
  "setup_cpu_available_features debug env s =
     (if debug \<and> \<not> hwcap_asserts s then Inl Assert_failed
      else
        let s = (case hwprobe env of
                   Some populate \<Rightarrow>
                     s\<lparr>feats := populate (feats s), calls := calls s @ [Probe_features True]\<rparr>
                 | None \<Rightarrow> os_aux_features env (s\<lparr>calls := calls s @ [Probe_features False]\<rparr>))
        in (case os_uarch_additional_features env s of
              Inl e \<Rightarrow> Inl e
            | Inr (uarch, s) \<Rightarrow>
                let s = vendor_features s;
                    buf = (case uarch of
                             None \<Rightarrow> []
                           | Some u \<Rightarrow> if u \<noteq> [] then take 511 (u @ '','') else [])
                in (case strcat 1024 buf ''rv64'' of
                      Inl e \<Rightarrow> Inl e
                    | Inr buf \<Rightarrow>
                        (case feature_loop debug (feature_list s) buf s of
                           Inl e \<Rightarrow> Inl e
                         | Inr (buf, s) \<Rightarrow> Inr (s\<lparr>features_string := Some buf\<rparr>)))))"

section \<open>Notions the properties are stated with\<close>

subsection \<open>Stub sizes\<close>

text \<open>
  The longest encoding of each primitive on RV64: one instruction is at most four bytes,
  an address materialisation (\<open>la_patchable\<close>, \<open>movptr\<close>) at most five instructions, and a
  far jump at most an address materialisation followed by a jump. The encoder is outside
  the two source files, so this is a condition on the parameter \<open>enc\<close>, not a fact derived
  from it.
\<close>

definition worst_case_bytes :: "prim \<Rightarrow> nat" where
  "worst_case_bytes p =
     (case p of
        La_patchable rd target \<Rightarrow> 5 * 4
      | Addi rd rs imm \<Rightarrow> 4
      | Sd rs base disp \<Rightarrow> 4
      | Far_jump target \<Rightarrow> 6 * 4
      | Movptr rd target \<Rightarrow> 5 * 4
      | Jalr rd rs imm \<Rightarrow> 4
      | J l \<Rightarrow> 4)"

definition within_worst_case :: "encoder \<Rightarrow> bool" where
  "within_worst_case enc \<longleftrightarrow> (\<forall>p at. insn_bytes enc p at \<le> worst_case_bytes p)"

text \<open>
  An encoder without compressed instructions, for concrete runs: every instruction is four
  bytes, \<open>movptr\<close> is five instructions, \<open>la_patchable\<close> one, a far jump two.
\<close>

definition plain_encoder :: encoder where
  "plain_encoder =
     \<lparr>insn_bytes = (\<lambda>p at. case p of
                       Movptr rd target \<Rightarrow> 20
                     | Far_jump target \<Rightarrow> 8
                     | _ \<Rightarrow> 4),
      out_offset = (\<lambda>p at. 0)\<rparr>"

definition example_runtime :: runtime where
  "example_runtime =
     \<lparr>polling_page_return_handler_blob = Some 4096, saved_exception_pc_offset = 8,
      method_entry_barrier = 8192\<rparr>"

text \<open>A code buffer whose current position, 6, is not a multiple of four.\<close>

definition example_masm :: C2_MacroAssembler where
  "example_masm = \<lparr>code_begin = 0, pc = 6, emitted = [], labels = (\<lambda>l. None)\<rparr>"

text \<open>
  Positions in the entry barrier stub when its emission starts at \<open>p0\<close>: the end of the
  three instruction sequences, and the padded position behind it where the guard goes.
\<close>

definition barrier_code_end :: "encoder \<Rightarrow> runtime \<Rightarrow> nat \<Rightarrow> nat" where
  "barrier_code_end enc rt p0 =
     (let p1 = p0 + insn_bytes enc (Movptr t0 (method_entry_barrier rt)) p0;
          p2 = p1 + insn_bytes enc
                 (Jalr ra t0 (out_offset enc (Movptr t0 (method_entry_barrier rt)) p0)) p1
      in p2 + insn_bytes enc (J continuation) p2)"

definition guard_position :: "encoder \<Rightarrow> runtime \<Rightarrow> nat \<Rightarrow> nat" where
  "guard_position enc rt p0 =
     barrier_code_end enc rt p0 + (4 - barrier_code_end enc rt p0 mod 4) mod 4"

subsection \<open>The canonical features string, in the spec's words\<close>

text \<open>
  The display token: the bare letter of a single-letter extension, an underscore and the
  lowercase name of a multi-letter one.
\<close>

definition display_token :: "RVFeatureValue \<Rightarrow> string" where
  "display_token v =
     (if length (pretty v) = 1 then pretty v else CHR ''_'' # map tolower (pretty v))"

text \<open>
  The base tag followed by the tokens of the enabled extensions that show in the string,
  in registry order: a function of the registry's order \<open>fl\<close>, its static descriptors
  \<open>descr\<close> and the set \<open>en\<close> of enabled extensions.
\<close>

definition canonical_string ::
  "feature list \<Rightarrow> (feature \<Rightarrow> RVFeatureValue) \<Rightarrow> feature set \<Rightarrow> string" where
  "canonical_string fl descr en =
     ''rv64'' @
     concat (map (\<lambda>f. display_token (descr f))
                 (filter (\<lambda>f. f \<in> en \<and> feature_string (descr f)) fl))"

text \<open>
  What the finalisation loop appends for a feature whose name is not empty: the name itself
  when it is one character long, otherwise an underscore, the lower-cased first character
  and the remaining characters as they are.
\<close>

definition appended_token :: "RVFeatureValue \<Rightarrow> string" where
  "appended_token v =
     (if length (pretty v) = 1 then pretty v
      else CHR ''_'' # tolower (hd (pretty v)) # tl (pretty v))"

text \<open>
  The naming convention of the registry that the source's comment records (``Turn Zxxx
  into zxxx''): a name is not empty, and only its first character may be an upper-case
  letter.
\<close>

definition well_named :: "RVFeatureValue \<Rightarrow> bool" where
  "well_named v \<longleftrightarrow> pretty v \<noteq> [] \<and> map tolower (tl (pretty v)) = tl (pretty v)"

subsection \<open>The lines of the pseudo-file\<close>

text \<open>
  A line of text as \<open>fgets\<close> with the 512-byte array returns it whole: it ends in its
  newline, has no other newline and no NUL, and fits the array with its terminator. A
  file of such lines is their concatenation.
\<close>

definition text_line :: "string \<Rightarrow> bool" where
  "text_line l \<longleftrightarrow>
     l \<noteq> [] \<and> length l < 512 \<and> last l = CHR ''\<newline>'' \<and>
     CHR ''\<newline>'' \<notin> set (butlast l) \<and> CHR 0x00 \<notin> set l"

text \<open>
  The two fields in terms of the lines: the first line that starts with \<open>mmu\<close> and has a
  colon decides the mode, the first line that starts with \<open>uarch\<close> and has a colon gives
  the name, which is everything after the colon and the character that follows it. The
  mode looks at no \<open>uarch\<close> line and the name at no \<open>mmu\<close> line.
\<close>

definition is_mmu :: "string \<Rightarrow> bool" where
  "is_mmu l \<longleftrightarrow> CHR '':'' \<in> set l \<and> take 3 l = ''mmu''"

definition is_uarch :: "string \<Rightarrow> bool" where
  "is_uarch l \<longleftrightarrow> CHR '':'' \<in> set l \<and> take 5 l = ''uarch''"

definition from_colon :: "string \<Rightarrow> string" where
  "from_colon l = dropWhile (\<lambda>c. c \<noteq> CHR '':'') l"

definition found_mode :: "VM_MODE \<Rightarrow> string list \<Rightarrow> VM_MODE" where
  "found_mode mode ls =
     (if mode \<noteq> VM_NOTSET then mode
      else case find is_mmu ls of
             None \<Rightarrow> VM_NOTSET
           | Some l \<Rightarrow> parse_satp_mode (from_colon l))"

definition found_uarch :: "string option \<Rightarrow> string list \<Rightarrow> string option" where
  "found_uarch ret ls =
     (case ret of
        Some r \<Rightarrow> Some r
      | None \<Rightarrow>
          (case find is_uarch ls of
             None \<Rightarrow> None
           | Some l \<Rightarrow> Some (drop 2 (from_colon l))))"

text \<open>Both fields have been found within the lines \<open>ls\<close>.\<close>

definition both_found :: "string list \<Rightarrow> bool" where
  "both_found ls \<longleftrightarrow> found_mode VM_NOTSET ls \<noteq> VM_NOTSET \<and> found_uarch None ls \<noteq> None"

text \<open>
  The two fields that a scan hands back, without its trace; and what the calls of \<open>fgets\<close>
  in a trace returned, in their order.
\<close>

definition scanned ::
  "error + (VM_MODE \<times> string option \<times> os_event list) \<Rightarrow> error + (VM_MODE \<times> string option)" where
  "scanned r = map_sum (\<lambda>e. e) (\<lambda>(mode, ret, tr). (mode, ret)) r"

definition fetched :: "os_event list \<Rightarrow> string option list" where
  "fetched tr = concat (map (\<lambda>e. case e of Fgets line \<Rightarrow> [line] | _ \<Rightarrow> []) tr)"

subsection \<open>A registry for concrete runs\<close>

text \<open>
  The registry's table is declared outside the two source files. This one has the shape
  the spec describes: the single-letter extensions on their kernel bits, multi-letter
  extensions without a kernel bit, and three entries that do not show in the string.
  Nothing is enabled and no value is stored.
\<close>

definition declared :: "string \<Rightarrow> bool \<Rightarrow> 64 word \<Rightarrow> RVFeatureValue" where
  "declared name shown fbit =
     \<lparr>pretty = name, feature_string = shown, feature_bit = fbit, enabled = False,
      val = No_value\<rparr>"

definition example_feats :: "feature \<Rightarrow> RVFeatureValue" where
  "example_feats f =
     (case f of
        ext_I \<Rightarrow> declared ''i'' True (HWCAP_ISA CHR ''I'')
      | ext_M \<Rightarrow> declared ''m'' True (HWCAP_ISA CHR ''M'')
      | ext_A \<Rightarrow> declared ''a'' True (HWCAP_ISA CHR ''A'')
      | ext_F \<Rightarrow> declared ''f'' True (HWCAP_ISA CHR ''F'')
      | ext_D \<Rightarrow> declared ''d'' True (HWCAP_ISA CHR ''D'')
      | ext_C \<Rightarrow> declared ''c'' True (HWCAP_ISA CHR ''C'')
      | ext_Q \<Rightarrow> declared ''q'' True (HWCAP_ISA CHR ''Q'')
      | ext_H \<Rightarrow> declared ''h'' True (HWCAP_ISA CHR ''H'')
      | ext_V \<Rightarrow> declared ''v'' True (HWCAP_ISA CHR ''V'')
      | ext_Zicbom \<Rightarrow> declared ''Zicbom'' True 0
      | ext_Zicboz \<Rightarrow> declared ''Zicboz'' True 0
      | ext_Zicbop \<Rightarrow> declared ''Zicbop'' True 0
      | ext_Zba \<Rightarrow> declared ''Zba'' True 0
      | ext_Zbb \<Rightarrow> declared ''Zbb'' True 0
      | ext_Zbc \<Rightarrow> declared ''Zbc'' True 0
      | ext_Zbs \<Rightarrow> declared ''Zbs'' True 0
      | ext_Zicsr \<Rightarrow> declared ''Zicsr'' True 0
      | ext_Zifencei \<Rightarrow> declared ''Zifencei'' True 0
      | ext_Zic64b \<Rightarrow> declared ''Zic64b'' True 0
      | ext_Zihintpause \<Rightarrow> declared ''Zihintpause'' True 0
      | unaligned_access \<Rightarrow> declared ''Unaligned'' False 0
      | satp_mode \<Rightarrow> declared ''SATP'' False 0
      | mvendorid \<Rightarrow> declared ''VendorId'' False 0
      | other_feature n \<Rightarrow> declared ''Other'' False 0)"

definition example_registry :: VM_Version where
  "example_registry =
     \<lparr>feature_list =
        [ext_I, ext_M, ext_A, ext_F, ext_D, ext_C, ext_Q, ext_H, ext_V,
         ext_Zicbom, ext_Zicboz, ext_Zicbop, ext_Zba, ext_Zbb, ext_Zbc, ext_Zbs,
         ext_Zicsr, ext_Zifencei, ext_Zic64b, ext_Zihintpause,
         mvendorid, unaligned_access, satp_mode],
      feats = example_feats, features = 0, features_string = None, calls = []\<rparr>"

text \<open>
  The example registry after a probe that found the C extension and the vendor id of the
  overlay's table.
\<close>

definition vendor_probed :: VM_Version where
  "vendor_probed =
     enable mvendorid (Number 0x6cf) (enable ext_C Default_value example_registry)"

text \<open>
  Detection sources for concrete runs: none available; only the capability bitmask, with
  the bits of I, M and A; only the pseudo-file, with the two lines of the spec's scenario
  followed by two more lines; and a hardware probe that succeeds and reports V, next to a
  bitmask with the bit of I. In each of them the bytes of the line buffer that nobody has
  written yet are all \<open>#\<close>.
\<close>

definition unwritten :: "nat \<Rightarrow> char" where
  "unwritten i = CHR ''#''"

definition no_sources :: os_env where
  "no_sources = \<lparr>hwprobe = None, auxv = 0, cpuinfo = None, stack = unwritten\<rparr>"

definition bitmask_ima :: os_env where
  "bitmask_ima =
     \<lparr>hwprobe = None,
      auxv = HWCAP_ISA CHR ''I'' OR HWCAP_ISA CHR ''M'' OR HWCAP_ISA CHR ''A'',
      cpuinfo = None, stack = unwritten\<rparr>"

definition probe_finds_v :: os_env where
  "probe_finds_v =
     \<lparr>hwprobe = Some (\<lambda>registry. registry(ext_V := enable_feature Default_value (registry ext_V))),
      auxv = HWCAP_ISA CHR ''I'', cpuinfo = None, stack = unwritten\<rparr>"

definition scenario_cpuinfo :: string where
  "scenario_cpuinfo =
     ''mmu : sv48\<newline>'' @ ''uarch : sifive-u74\<newline>'' @
     ''isa : rv64imafdc\<newline>'' @ ''hart : 0\<newline>''"

definition cpuinfo_sv48_u74 :: os_env where
  "cpuinfo_sv48_u74 =
     \<lparr>hwprobe = None, auxv = 0, cpuinfo = Some scenario_cpuinfo, stack = unwritten\<rparr>"

section \<open>Properties of the stubs\<close>

subsection \<open>What each primitive does to the position, the labels and the buffer\<close>

lemma pad_le: "(4 - n mod 4) mod 4 \<le> (3::nat)"
proof -
  have "(4 - n mod 4) mod 4 < 4" by (rule mod_less_divisor) simp
  then show ?thesis by simp
qed

lemma pad_aligns: "(n + (4 - n mod 4) mod 4) mod 4 = (0::nat)"
proof -
  have split: "(n + k) mod 4 = (n mod 4 + k) mod 4" for k
    by (simp only: mod_add_left_eq)
  have "n mod 4 < 4" by (rule mod_less_divisor) simp
  then consider "n mod 4 = 0" | "n mod 4 = 1" | "n mod 4 = 2" | "n mod 4 = 3"
    by linarith
  then show ?thesis
  proof cases
    case 1 then show ?thesis by simp
  next
    case 2
    have "(n + (4 - n mod 4) mod 4) mod 4 = (n mod 4 + (4 - n mod 4) mod 4) mod 4"
      by (rule split)
    also have "\<dots> = 0" by (simp only: 2) simp
    finally show ?thesis .
  next
    case 3
    have "(n + (4 - n mod 4) mod 4) mod 4 = (n mod 4 + (4 - n mod 4) mod 4) mod 4"
      by (rule split)
    also have "\<dots> = 0" by (simp only: 3) simp
    finally show ?thesis .
  next
    case 4
    have "(n + (4 - n mod 4) mod 4) mod 4 = (n mod 4 + (4 - n mod 4) mod 4) mod 4"
      by (rule split)
    also have "\<dots> = 0" by (simp only: 4) simp
    finally show ?thesis .
  qed
qed

lemma pc_emit_prim: "pc (emit_prim enc p masm) = pc masm + insn_bytes enc p (pc masm)"
  by (simp add: emit_prim_def)

lemma pc_bind: "pc (bind l masm) = pc masm"
  by (simp add: bind_def)

lemma pc_align: "pc (align m masm) = pc masm + (m - pc masm mod m) mod m"
  by (simp add: align_def Let_def)

lemma pc_emit_int32: "pc (emit_int32 w masm) = pc masm + 4"
  by (simp add: emit_int32_def)

lemma pc_relocate_id: "pc (relocate r (\<lambda>m. m) masm) = pc masm"
  by (simp add: relocate_def)

lemmas pc_simps = pc_emit_prim pc_bind pc_align pc_emit_int32 pc_relocate_id

lemma labels_emit_prim: "labels (emit_prim enc p masm) = labels masm"
  by (simp add: emit_prim_def)

lemma labels_bind: "labels (bind l masm) = (labels masm)(l := Some (pc masm))"
  by (simp add: bind_def)

lemma labels_align: "labels (align m masm) = labels masm"
  by (simp add: align_def Let_def)

lemma labels_emit_int32: "labels (emit_int32 w masm) = labels masm"
  by (simp add: emit_int32_def)

lemma labels_relocate_id: "labels (relocate r (\<lambda>m. m) masm) = labels masm"
  by (simp add: relocate_def)

lemmas labels_simps = labels_emit_prim labels_bind labels_align labels_emit_int32
  labels_relocate_id

lemma emitted_emit_prim: "emitted (emit_prim enc p masm) = emitted masm @ [Code p (pc masm)]"
  by (simp add: emit_prim_def)

lemma emitted_bind: "emitted (bind l masm) = emitted masm"
  by (simp add: bind_def)

lemma emitted_align:
  "emitted (align m masm) = emitted masm @ [Padding ((m - pc masm mod m) mod m) (pc masm)]"
  by (simp add: align_def Let_def)

lemma emitted_emit_int32: "emitted (emit_int32 w masm) = emitted masm @ [Int32 w (pc masm)]"
  by (simp add: emit_int32_def)

lemma emitted_relocate_id:
  "emitted (relocate r (\<lambda>m. m) masm) = emitted masm @ [Reloc r (pc masm)]"
  by (simp add: relocate_def)

lemmas emitted_simps = emitted_emit_prim emitted_bind emitted_align emitted_emit_int32
  emitted_relocate_id

lemma barrier_guard_label:
  "labels (C2EntryBarrierStub_emit enc rt masm) guard = Some (guard_position enc rt (pc masm))"
  by (simp add: C2EntryBarrierStub_emit_def barrier_code_end_def guard_position_def Let_def
      labels_simps pc_simps)

lemma barrier_pc:
  "pc (C2EntryBarrierStub_emit enc rt masm) = guard_position enc rt (pc masm) + 4"
  by (simp add: C2EntryBarrierStub_emit_def barrier_code_end_def guard_position_def Let_def
      pc_simps)

lemma barrier_emitted:
  "emitted (C2EntryBarrierStub_emit enc rt masm) =
     butlast (butlast (emitted (C2EntryBarrierStub_emit enc rt masm))) @
       [Reloc entry_guard (guard_position enc rt (pc masm)),
        Int32 0 (guard_position enc rt (pc masm))]"
  by (simp add: C2EntryBarrierStub_emit_def barrier_code_end_def guard_position_def Let_def
      emitted_simps pc_simps butlast_append)

lemma barrier_emitted_prefix:
  "take (length (emitted masm)) (emitted (C2EntryBarrierStub_emit enc rt masm)) = emitted masm"
  by (simp add: C2EntryBarrierStub_emit_def Let_def emitted_simps)

lemma guard_position_aligned: "guard_position enc rt p0 mod 4 = 0"
  by (simp add: guard_position_def pad_aligns)

lemma guard_position_bounds:
  "barrier_code_end enc rt p0 \<le> guard_position enc rt p0 \<and>
   guard_position enc rt p0 \<le> barrier_code_end enc rt p0 + 3"
  using pad_le[of "barrier_code_end enc rt p0"] by (simp add: guard_position_def)

text \<open>
  Claim C10. Whatever the encoder, the runtime addresses and the state of the buffer, the
  entry barrier stub ends with the entry-guard relocation followed at once by the 32-bit
  word 0, both at the position the \<open>guard\<close> label is bound to.
\<close>

theorem guard_word_zero_after_relocation:
  "\<exists>pre g. emitted (C2EntryBarrierStub_emit enc rt masm) =
            pre @ [Reloc entry_guard g, Int32 0 g] \<and>
          labels (C2EntryBarrierStub_emit enc rt masm) guard = Some g"
proof (intro exI conjI)
  show "emitted (C2EntryBarrierStub_emit enc rt masm) =
          butlast (butlast (emitted (C2EntryBarrierStub_emit enc rt masm))) @
            [Reloc entry_guard (guard_position enc rt (pc masm)),
             Int32 0 (guard_position enc rt (pc masm))]"
    by (rule barrier_emitted)
  show "labels (C2EntryBarrierStub_emit enc rt masm) guard =
          Some (guard_position enc rt (pc masm))"
    by (rule barrier_guard_label)
qed

text \<open>
  Claim C1. After \<open>C2EntryBarrierStub::emit\<close> the \<open>guard\<close> label is bound, the last thing
  emitted is the guard word at that address, and the address is a multiple of four; the
  position at which emission starts (\<open>pc masm\<close>) is arbitrary.
\<close>

theorem guard_address_aligned:
  "\<exists>g. labels (C2EntryBarrierStub_emit enc rt masm) guard = Some g \<and>
       last (emitted (C2EntryBarrierStub_emit enc rt masm)) = Int32 0 g \<and>
       g mod 4 = 0"
proof (intro exI conjI)
  show "labels (C2EntryBarrierStub_emit enc rt masm) guard =
          Some (guard_position enc rt (pc masm))"
    by (rule barrier_guard_label)
  show "last (emitted (C2EntryBarrierStub_emit enc rt masm)) =
        Int32 0 (guard_position enc rt (pc masm))"
    by (subst barrier_emitted) simp
  show "guard_position enc rt (pc masm) mod 4 = 0"
    by (rule guard_position_aligned)
qed

lemma safepoint_emit_bound:
  assumes enc: "within_worst_case enc"
    and blob: "polling_page_return_handler_blob rt = Some stub"
  shows "\<exists>masm'. C2SafepointPollStub_emit debug enc rt this masm = Inr masm' \<and>
           pc masm \<le> pc masm' \<and> pc masm' \<le> pc masm + 52"
proof -
  have b: "insn_bytes enc p at \<le> worst_case_bytes p" for p at
    using enc by (simp add: within_worst_case_def)
  define m0 where "m0 = bind entry masm"
  define sp where "sp = pc m0 - offset m0 + safepoint_offset this"
  define r0 where "r0 = m0\<lparr>emitted := emitted m0 @ [Reloc (internal_word sp) (pc m0)]\<rparr>"
  define m1 where "m1 = emit_prim enc (La_patchable t0 sp) r0"
  define m2 where
    "m2 = emit_prim enc (Addi t0 t0 (out_offset enc (La_patchable t0 sp) (pc r0))) m1"
  define m3 where "m3 = emit_prim enc (Sd t0 xthread (saved_exception_pc_offset rt)) m2"
  define m4 where "m4 = emit_prim enc (Far_jump stub) m3"
  have run: "C2SafepointPollStub_emit debug enc rt this masm = Inr m4"
    unfolding C2SafepointPollStub_emit_def blob Let_def relocate_def
      m4_def m3_def m2_def m1_def r0_def sp_def m0_def
    by simp
  have "pc r0 = pc masm"
    by (simp add: r0_def m0_def bind_def)
  moreover have "pc r0 \<le> pc m1 \<and> pc m1 \<le> pc r0 + 20"
    using b[of "La_patchable t0 sp" "pc r0"]
    by (simp add: m1_def pc_emit_prim worst_case_bytes_def)
  moreover have "pc m1 \<le> pc m2 \<and> pc m2 \<le> pc m1 + 4"
    using b[of "Addi t0 t0 (out_offset enc (La_patchable t0 sp) (pc r0))" "pc m1"]
    by (simp add: m2_def pc_emit_prim worst_case_bytes_def)
  moreover have "pc m2 \<le> pc m3 \<and> pc m3 \<le> pc m2 + 4"
    using b[of "Sd t0 xthread (saved_exception_pc_offset rt)" "pc m2"]
    by (simp add: m3_def pc_emit_prim worst_case_bytes_def)
  moreover have "pc m3 \<le> pc m4 \<and> pc m4 \<le> pc m3 + 24"
    using b[of "Far_jump stub" "pc m3"]
    by (simp add: m4_def pc_emit_prim worst_case_bytes_def)
  ultimately have "pc masm \<le> pc m4 \<and> pc m4 \<le> pc masm + 52"
    by linarith
  with run show ?thesis
    by (intro exI[of _ m4]) simp
qed

lemma barrier_code_end_bounds:
  assumes "within_worst_case enc"
  shows "p0 \<le> barrier_code_end enc rt p0 \<and> barrier_code_end enc rt p0 \<le> p0 + 28"
proof -
  have b: "insn_bytes enc p at \<le> worst_case_bytes p" for p at
    using assms by (simp add: within_worst_case_def)
  define m1 where "m1 = insn_bytes enc (Movptr t0 (method_entry_barrier rt)) p0"
  define moff where "moff = out_offset enc (Movptr t0 (method_entry_barrier rt)) p0"
  define m2 where "m2 = insn_bytes enc (Jalr ra t0 moff) (p0 + m1)"
  define m3 where "m3 = insn_bytes enc (J continuation) (p0 + m1 + m2)"
  have "m1 \<le> 20" "m2 \<le> 4" "m3 \<le> 4"
    using b[of "Movptr t0 (method_entry_barrier rt)" p0] b[of "Jalr ra t0 moff" "p0 + m1"]
      b[of "J continuation" "p0 + m1 + m2"]
    by (simp_all add: m1_def m2_def m3_def worst_case_bytes_def)
  moreover have "barrier_code_end enc rt p0 = p0 + m1 + m2 + m3"
    by (simp add: barrier_code_end_def Let_def m1_def m2_def m3_def moff_def)
  ultimately show ?thesis by simp
qed

text \<open>
  Claim C2. For every encoder that stays within the worst-case lengths, every target
  address (handler entry, barrier routine, safepoint offset) and every starting position,
  both stubs emit at most \<open>max_size()\<close> bytes: 52 for the safepoint poll stub, which does
  return a result once the handler blob exists, and 36 for the entry barrier stub.
\<close>

theorem emit_within_max_size:
  assumes enc: "within_worst_case enc"
    and blob: "polling_page_return_handler_blob rt = Some stub"
  shows "(\<exists>masm'. C2SafepointPollStub_emit debug enc rt this masm = Inr masm' \<and>
            pc masm \<le> pc masm' \<and>
            pc masm' - pc masm \<le> C2SafepointPollStub_max_size) \<and>
         pc masm \<le> pc (C2EntryBarrierStub_emit enc rt masm) \<and>
         pc (C2EntryBarrierStub_emit enc rt masm) - pc masm \<le> C2EntryBarrierStub_max_size \<and>
         C2SafepointPollStub_max_size = 52 \<and> C2EntryBarrierStub_max_size = 36"
proof -
  obtain masm' where
    run: "C2SafepointPollStub_emit debug enc rt this masm = Inr masm'" and
    pc': "pc masm \<le> pc masm'" "pc masm' \<le> pc masm + 52"
    using safepoint_emit_bound[OF enc blob, of debug this masm] by (elim exE conjE)
  have "pc masm' - pc masm \<le> C2SafepointPollStub_max_size"
    using pc' by (simp add: C2SafepointPollStub_max_size_def)
  with run pc' have safepoint:
    "\<exists>masm'. C2SafepointPollStub_emit debug enc rt this masm = Inr masm' \<and>
            pc masm \<le> pc masm' \<and> pc masm' - pc masm \<le> C2SafepointPollStub_max_size"
    by (intro exI[of _ masm']) simp
  have barrier: "pc masm \<le> pc (C2EntryBarrierStub_emit enc rt masm) \<and>
         pc (C2EntryBarrierStub_emit enc rt masm) - pc masm \<le> C2EntryBarrierStub_max_size"
    using barrier_code_end_bounds[OF enc, of "pc masm" rt]
      guard_position_bounds[of enc rt "pc masm"]
    unfolding C2EntryBarrierStub_max_size_def barrier_pc by linarith
  show ?thesis
    using safepoint barrier
    by (simp add: C2SafepointPollStub_max_size_def C2EntryBarrierStub_max_size_def)
qed

lemma plain_encoder_within: "within_worst_case plain_encoder"
  by (simp add: within_worst_case_def plain_encoder_def worst_case_bytes_def split: prim.split)


text \<open>
  The hypotheses of C2 hold for the plain encoder, the example runtime and a buffer that
  starts at the unaligned position 6.
\<close>

theorem emit_within_max_size_witness:
  "within_worst_case plain_encoder \<and>
   polling_page_return_handler_blob example_runtime = Some 4096 \<and>
   (\<exists>masm'. C2SafepointPollStub_emit True plain_encoder example_runtime
               \<lparr>safepoint_offset = 12\<rparr> example_masm = Inr masm' \<and>
             pc masm' - pc example_masm \<le> C2SafepointPollStub_max_size) \<and>
   pc (C2EntryBarrierStub_emit plain_encoder example_runtime example_masm) - pc example_masm
     \<le> C2EntryBarrierStub_max_size"
proof -
  have blob: "polling_page_return_handler_blob example_runtime = Some 4096"
    by (simp add: example_runtime_def)
  show ?thesis
    using emit_within_max_size[OF plain_encoder_within blob, of True "\<lparr>safepoint_offset = 12\<rparr>"
        example_masm]
      plain_encoder_within blob
    by blast
qed

text \<open>There the guard lands at 36, after two bytes of padding, and the stub ends at 40.\<close>

lemma barrier_example:
  "pc (C2EntryBarrierStub_emit plain_encoder example_runtime example_masm) = 40 \<and>
   labels (C2EntryBarrierStub_emit plain_encoder example_runtime example_masm) guard = Some 36"
  by (simp add: barrier_pc barrier_guard_label guard_position_def barrier_code_end_def
      plain_encoder_def example_masm_def)


section \<open>Properties of the detection pass\<close>

subsection \<open>The registry under the detection steps\<close>

lemma enable_feature_enabled: "enabled (enable_feature v x)"
  by (simp add: enable_feature_def)

lemma enable_feature_static:
  "pretty (enable_feature v x) = pretty x"
  "feature_string (enable_feature v x) = feature_string x"
  "feature_bit (enable_feature v x) = feature_bit x"
  by (simp_all add: enable_feature_def)

lemma enable_feature_idem: "enable_feature v (enable_feature w x) = enable_feature v x"
  by (simp add: enable_feature_def)

lemma enable_fields:
  "feature_list (enable f v s) = feature_list s"
  "features (enable f v s) = features s"
  "features_string (enable f v s) = features_string s"
  "calls (enable f v s) = calls s"
  "feats (enable f v s) = (feats s)(f := enable_feature v (feats s f))"
  by (simp_all add: enable_def)

lemma enable_keeps_enabled:
  "enabled (feats s g) \<Longrightarrow> enabled (feats (enable f v s) g)"
  by (simp add: enable_def enable_feature_def)

lemma os_aux_loop_eq:
  "os_aux_loop hwcap fs s =
     s\<lparr>feats := (\<lambda>f. if f \<in> set fs \<and> feature_bit (feats s f) AND hwcap \<noteq> 0
                     then enable_feature Default_value (feats s f) else feats s f)\<rparr>"
proof (induction fs arbitrary: s)
  case Nil
  show ?case by simp
next
  case (Cons g fs)
  show ?case
  proof (cases "feature_bit (feats s g) AND hwcap \<noteq> 0")
    case True
    have "(\<lambda>f. if f \<in> set fs \<and>
                  feature_bit (feats (enable g Default_value s) f) AND hwcap \<noteq> 0
               then enable_feature Default_value (feats (enable g Default_value s) f)
               else feats (enable g Default_value s) f) =
          (\<lambda>f. if f \<in> set (g # fs) \<and> feature_bit (feats s f) AND hwcap \<noteq> 0
               then enable_feature Default_value (feats s f) else feats s f)"
      using True
      by (auto simp: fun_eq_iff enable_fields enable_feature_static enable_feature_idem)
    then show ?thesis
      using True by (simp add: Cons.IH) (simp add: enable_def)
  next
    case False
    have "(\<lambda>f. if f \<in> set fs \<and> feature_bit (feats s f) AND hwcap \<noteq> 0
               then enable_feature Default_value (feats s f) else feats s f) =
          (\<lambda>f. if f \<in> set (g # fs) \<and> feature_bit (feats s f) AND hwcap \<noteq> 0
               then enable_feature Default_value (feats s f) else feats s f)"
      using False by (auto simp: fun_eq_iff)
    then show ?thesis
      using False by (simp add: Cons.IH)
  qed
qed

lemma os_aux_features_eq:
  "os_aux_features env s =
     s\<lparr>feats := (\<lambda>f. if f \<in> set (feature_list s) \<and> feature_bit (feats s f) AND auxv env \<noteq> 0
                     then enable_feature Default_value (feats s f) else feats s f),
       calls := calls s @ [Getauxval]\<rparr>"
  by (simp add: os_aux_features_def os_aux_loop_eq cong: if_cong)

lemma fold_statements:
  assumes "\<And>st s. st \<in> set sts \<Longrightarrow> P s \<Longrightarrow> P (st s)" and "P s"
  shows "P (fold (\<lambda>statement s. statement s) sts s)"
  using assms by (induction sts arbitrary: s) auto

lemma rivos_keeps_enabled:
  assumes "enabled (feats s g)"
  shows "enabled (feats (rivos_features s) g)"
  unfolding rivos_features_def
  by (rule fold_statements[where P = "\<lambda>s. enabled (feats s g)"])
     (use assms in \<open>auto simp: enable_keeps_enabled\<close>)

lemma rivos_fields:
  "feature_list (rivos_features s) = feature_list s \<and> calls (rivos_features s) = calls s \<and>
   features (rivos_features s) = features s \<and> features_string (rivos_features s) = features_string s"
  unfolding rivos_features_def
  by (rule fold_statements[where P = "\<lambda>t. feature_list t = feature_list s \<and> calls t = calls s \<and>
   features t = features s \<and> features_string t = features_string s"])
     (auto simp: enable_fields)

lemma rivos_static:
  "pretty (feats (rivos_features s) g) = pretty (feats s g) \<and>
   feature_string (feats (rivos_features s) g) = feature_string (feats s g) \<and>
   feature_bit (feats (rivos_features s) g) = feature_bit (feats s g)"
  unfolding rivos_features_def
  by (rule fold_statements[where P = "\<lambda>t. pretty (feats t g) = pretty (feats s g) \<and>
   feature_string (feats t g) = feature_string (feats s g) \<and>
   feature_bit (feats t g) = feature_bit (feats s g)"])
     (auto simp: enable_fields enable_feature_static split: if_splits)

lemma rivos_changed_enabled:
  "feats (rivos_features s) g = feats s g \<or> enabled (feats (rivos_features s) g)"
  unfolding rivos_features_def
  by (rule fold_statements[where P = "\<lambda>t. feats t g = feats s g \<or> enabled (feats t g)"])
     (auto simp: enable_fields enable_feature_enabled)

text \<open>
  Claim C6. For every registry state, the vendor overlay leaves enabled whatever was
  enabled; an entry it changes at all is enabled afterwards (it went from disabled to
  enabled, or it was given a value); the registry's order is untouched.
\<close>

theorem vendor_overlay_monotonic:
  "(enabled (feats s f) \<longrightarrow> enabled (feats (vendor_features s) f)) \<and>
   (feats (vendor_features s) f = feats s f \<or> enabled (feats (vendor_features s) f)) \<and>
   feature_list (vendor_features s) = feature_list s"
  using rivos_keeps_enabled[of s f] rivos_changed_enabled[of s f] rivos_fields[of s]
  by (simp add: vendor_features_def)


subsection \<open>Calls and fields along the pipeline\<close>

lemma vendor_fields:
  "feature_list (vendor_features s) = feature_list s \<and> calls (vendor_features s) = calls s \<and>
   features (vendor_features s) = features s \<and>
   features_string (vendor_features s) = features_string s"
  using rivos_fields[of s] by (simp add: vendor_features_def)

lemma vendor_noop: "\<not> enabled (feats s mvendorid) \<Longrightarrow> vendor_features s = s"
  by (simp add: vendor_features_def)

lemma vendor_noop_default:
  "val (feats s mvendorid) = Default_value \<Longrightarrow> vendor_features s = s"
  by (simp add: vendor_features_def)

lemma feature_loop_none_enabled:
  "(\<And>f. f \<in> set fs \<Longrightarrow> \<not> enabled (feats s f)) \<Longrightarrow> feature_loop debug fs buf s = Inr (buf, s)"
  by (induction fs) simp_all

lemma cpuinfo_line_events:
  "cpuinfo_line buf mode ret = Inr (m, r, ev) \<Longrightarrow> Getauxval \<notin> set ev"
  by (auto simp: cpuinfo_line_def Let_def split: option.splits if_splits)

lemma cpuinfo_loop_events:
  "cpuinfo_loop f buf mode ret tr = Inr (m, r, tr') \<Longrightarrow>
   \<exists>evs. tr' = tr @ evs \<and> Getauxval \<notin> set evs"
proof (induction f buf mode ret tr arbitrary: m r tr' rule: cpuinfo_loop.induct)
  case (1 f buf mode ret tr)
  show ?case
  proof (cases "fgets 512 f")
    case None
    with "1.prems" show ?thesis
      by (subst (asm) cpuinfo_loop.simps) auto
  next
    case (Some a)
    obtain line f' where a: "a = (line, f')" by (cases a)
    show ?thesis
    proof (cases "mode = VM_NOTSET \<or> ret = None")
      case False
      with "1.prems" Some a show ?thesis
        by (subst (asm) cpuinfo_loop.simps) auto
    next
      case True
      show ?thesis
      proof (cases "cpuinfo_line (store_line line buf) mode ret")
        case (Inl e)
        with "1.prems" Some a True show ?thesis
          by (subst (asm) cpuinfo_loop.simps) auto
      next
        case (Inr b)
        obtain mode' ret' ev where b: "b = (mode', ret', ev)" by (cases b)
        have rec: "cpuinfo_loop f' (store_line line buf) mode' ret'
                     (tr @ [Fgets (Some line)] @ ev) = Inr (m, r, tr')"
          using "1.prems" Some a True Inr b by (subst (asm) cpuinfo_loop.simps) auto
        from "1.IH"[OF Some a[symmetric] True Inr b[symmetric] refl rec]
        obtain evs where "tr' = (tr @ [Fgets (Some line)] @ ev) @ evs" "Getauxval \<notin> set evs"
          by blast
        moreover have "Getauxval \<notin> set ev"
          using Inr b cpuinfo_line_events by blast
        ultimately show ?thesis
          by (intro exI[of _ "[Fgets (Some line)] @ ev @ evs"]) simp
      qed
    qed
  qed
qed

lemma os_uarch_fields:
  assumes "os_uarch_additional_features env s = Inr (uarch, s')"
  shows "feature_list s' = feature_list s \<and>
         (\<exists>evs. calls s' = calls s @ evs \<and> Getauxval \<notin> set evs)"
proof (cases "cpuinfo env")
  case None
  with assms show ?thesis
    by (auto simp: os_uarch_additional_features_def)
next
  case (Some f)
  from assms Some obtain mode ret tr where
    loop: "cpuinfo_loop f (line_buffer env) VM_NOTSET None (calls s @ [Fopen True]) =
             Inr (mode, ret, tr)"
    and s': "s' = enable satp_mode (Mode (if mode = VM_NOTSET then VM_MBARE else mode))
                    (s\<lparr>calls := tr @ [Fclose]\<rparr>)"
    by (auto simp: os_uarch_additional_features_def Let_def split: sum.splits)
  from cpuinfo_loop_events[OF loop] obtain evs where
    "tr = (calls s @ [Fopen True]) @ evs" "Getauxval \<notin> set evs"
    by blast
  then show ?thesis
    by (intro conjI exI[of _ "[Fopen True] @ evs @ [Fclose]"]) (simp_all add: s' enable_fields)
qed

lemma feature_loop_fields:
  "feature_loop debug fs buf s = Inr (buf', s') \<Longrightarrow>
   feats s' = feats s \<and> feature_list s' = feature_list s \<and>
   features_string s' = features_string s \<and>
   calls s' = calls s @ map Update_flag (filter (\<lambda>f. enabled (feats s f)) fs)"
proof (induction fs arbitrary: buf s)
  case Nil
  then show ?case by simp
next
  case (Cons g fs)
  show ?case
  proof (cases "enabled (feats s g)")
    case False
    with Cons show ?thesis by simp
  next
    case True
    define s1 where
      "s1 = (if feature_bit (feats s g) \<noteq> 0
             then s\<lparr>features := features s OR feature_bit (feats s g)\<rparr> else s)
            \<lparr>calls := calls s @ [Update_flag g]\<rparr>"
    from Cons.prems True obtain buf1 where
      "feature_loop debug fs buf1 s1 = Inr (buf', s')"
      by (auto simp: Let_def s1_def split: sum.splits if_splits)
    from Cons.IH[OF this] show ?thesis
      using True by (simp add: s1_def)
  qed
qed


subsection \<open>No source available\<close>

text \<open>
  From any registry in which nothing is enabled, a pass without sources returns, sets the
  features string to the base tag and changes nothing else but the record of its calls:
  every extension is still disabled and the translation-mode entry is what it was.
\<close>

lemma setup_all_unavailable:
  assumes probe: "hwprobe env = None" and aux: "auxv env = 0" and nofile: "cpuinfo env = None"
    and off: "\<And>f. \<not> enabled (feats s f)"
    and bits: "debug \<longrightarrow> hwcap_asserts s"
  shows "setup_cpu_available_features debug env s =
           Inr (s\<lparr>features_string := Some ''rv64'',
                  calls := calls s @ [Probe_features False, Getauxval, Fopen False]\<rparr>)"
proof -
  define s1 where "s1 = s\<lparr>calls := calls s @ [Probe_features False, Getauxval]\<rparr>"
  define s2 where "s2 = s\<lparr>calls := calls s @ [Probe_features False, Getauxval, Fopen False]\<rparr>"
  have aux_step: "os_aux_features env (s\<lparr>calls := calls s @ [Probe_features False]\<rparr>) = s1"
    by (simp add: os_aux_features_eq aux s1_def)
  have file_step: "os_uarch_additional_features env s1 = Inr (None, s2)"
    by (simp add: os_uarch_additional_features_def nofile s1_def s2_def)
  have vendor_step: "vendor_features s2 = s2"
    by (rule vendor_noop) (simp add: s2_def off)
  have loop: "feature_loop debug (feature_list s2) ''rv64'' s2 = Inr (''rv64'', s2)"
    by (rule feature_loop_none_enabled) (simp add: s2_def off)
  show ?thesis
    unfolding setup_cpu_available_features_def
    using bits
    by (simp add: probe aux_step file_step vendor_step loop strcat_def Let_def)
       (simp add: s2_def)
qed

lemma example_registry_off: "\<not> enabled (feats example_registry f)"
  by (cases f) (simp_all add: example_registry_def example_feats_def declared_def)

lemma example_registry_asserts: "hwcap_asserts example_registry"
  by (simp add: hwcap_asserts_def example_registry_def example_feats_def declared_def)

text \<open>
  Claim C3, on the code. With no source available (failed probe, bitmask zero, pseudo-file
  that cannot be opened, nothing enabled and so no vendor id) the detection pass on the
  example registry returns with the features string \<open>rv64\<close> and nothing enabled, as the
  claim says; but the translation-mode entry is not enabled and holds no value, where the
  claim says the mode is set to \<open>VM_MBARE\<close>. The return on the failed \<open>fopen\<close> comes
  before the default to \<open>VM_MBARE\<close> and before \<open>satp_mode.enable_feature\<close>.
\<close>

theorem unopened_cpuinfo_leaves_mode_unset:
  "map_sum (\<lambda>e. e)
     (\<lambda>s'. (features_string s', enabled (feats s' satp_mode), val (feats s' satp_mode)))
     (setup_cpu_available_features True no_sources example_registry) =
   Inr (Some ''rv64'', False, No_value)"
proof -
  have src: "hwprobe no_sources = None" "auxv no_sources = 0" "cpuinfo no_sources = None"
    by (simp_all add: no_sources_def)
  have bits: "True \<longrightarrow> hwcap_asserts example_registry"
    by (simp add: example_registry_asserts)
  show ?thesis
    by (simp add: setup_all_unavailable[OF src example_registry_off bits])
       (simp add: example_registry_def example_feats_def declared_def)
qed

subsection \<open>The capability bitmask\<close>

lemma os_uarch_feats:
  assumes "os_uarch_additional_features env s = Inr (uarch, s')"
    and "f \<noteq> satp_mode \<or> cpuinfo env = None"
  shows "feats s' f = feats s f"
proof (cases "cpuinfo env")
  case None
  with assms show ?thesis
    by (auto simp: os_uarch_additional_features_def)
next
  case (Some file_bytes)
  with assms(2) have other: "f \<noteq> satp_mode"
    by simp
  from assms(1) Some obtain mode tr where
    "s' = enable satp_mode (Mode mode) (s\<lparr>calls := tr @ [Fclose]\<rparr>)"
    by (auto simp: os_uarch_additional_features_def Let_def split: sum.splits)
  then show ?thesis
    using other by (simp add: enable_def)
qed

lemma setup_ignores_bitmask:
  assumes "hwprobe env \<noteq> None"
  shows "setup_cpu_available_features debug (env\<lparr>auxv := hwcap\<rparr>) s =
         setup_cpu_available_features debug env s"
proof -
  from assms obtain populate where probe: "hwprobe env = Some populate"
    by auto
  have array: "line_buffer (env\<lparr>auxv := hwcap\<rparr>) = line_buffer env"
    by (simp add: line_buffer_def)
  have "os_uarch_additional_features (env\<lparr>auxv := hwcap\<rparr>) t =
        os_uarch_additional_features env t" for t
    unfolding os_uarch_additional_features_def array by simp
  then show ?thesis
    by (simp add: setup_cpu_available_features_def probe)
qed

lemma setup_calls_getauxval:
  assumes run: "setup_cpu_available_features debug env s = Inr s'"
    and fresh: "Getauxval \<notin> set (calls s)"
  shows "Getauxval \<in> set (calls s') \<longleftrightarrow> hwprobe env = None"
proof -
  define s1 where
    "s1 = (case hwprobe env of
             Some populate \<Rightarrow>
               s\<lparr>feats := populate (feats s), calls := calls s @ [Probe_features True]\<rparr>
           | None \<Rightarrow> os_aux_features env (s\<lparr>calls := calls s @ [Probe_features False]\<rparr>))"
  have c1: "calls s1 = (case hwprobe env of
                          Some populate \<Rightarrow> calls s @ [Probe_features True]
                        | None \<Rightarrow> calls s @ [Probe_features False, Getauxval])"
    by (simp add: s1_def os_aux_features_eq split: option.splits)
  from run obtain uarch s2 where
    s2: "os_uarch_additional_features env s1 = Inr (uarch, s2)"
    by (auto simp: setup_cpu_available_features_def s1_def Let_def split: if_splits sum.splits)
  from run s2 obtain buf0 buf1 s3 where
    loop: "feature_loop debug (feature_list (vendor_features s2)) buf0 (vendor_features s2) =
             Inr (buf1, s3)" and
    s': "s' = s3\<lparr>features_string := Some buf1\<rparr>"
    by (auto simp: setup_cpu_available_features_def s1_def[symmetric] Let_def
        split: if_splits sum.splits)
  from os_uarch_fields[OF s2] obtain evs where
    c2: "calls s2 = calls s1 @ evs" "Getauxval \<notin> set evs"
    by blast
  have c3: "calls s3 = calls s2 @
              map Update_flag (filter (\<lambda>f. enabled (feats (vendor_features s2) f))
                                      (feature_list (vendor_features s2)))"
    using feature_loop_fields[OF loop] vendor_fields[of s2] by simp
  have "Getauxval \<in> set (calls s') \<longleftrightarrow> Getauxval \<in> set (calls s1)"
    using c2 c3 by (auto simp: s')
  also have "\<dots> \<longleftrightarrow> hwprobe env = None"
    using fresh by (auto simp: c1 split: option.splits)
  finally show ?thesis .
qed

text \<open>
  The registry at the end of a pass whose probe failed. The bitmask step enables with the
  default value, so the vendor overlay, which asks for the vendor id as value, does not
  fire unless the vendor id was enabled before the pass; the scan of the pseudo-file
  touches the translation mode only, and the finalisation no entry.
\<close>

lemma setup_bitmask_enabled:
  assumes run: "setup_cpu_available_features debug env s = Inr s'"
    and probe: "hwprobe env = None"
    and vendor: "\<not> enabled (feats s mvendorid)"
    and other: "f \<noteq> satp_mode \<or> cpuinfo env = None"
  shows "enabled (feats s' f) \<longleftrightarrow>
           enabled (feats s f) \<or>
           f \<in> set (feature_list s) \<and> feature_bit (feats s f) AND auxv env \<noteq> 0"
proof -
  define s1 where "s1 = os_aux_features env (s\<lparr>calls := calls s @ [Probe_features False]\<rparr>)"
  have f1: "feats s1 g =
              (if g \<in> set (feature_list s) \<and> feature_bit (feats s g) AND auxv env \<noteq> 0
               then enable_feature Default_value (feats s g) else feats s g)" for g
    by (simp add: s1_def os_aux_features_eq)
  from run obtain uarch s2 where
    s2: "os_uarch_additional_features env s1 = Inr (uarch, s2)"
    by (auto simp: setup_cpu_available_features_def s1_def probe Let_def
        split: if_splits sum.splits)
  from run s2 obtain buf0 buf1 s3 where
    loop: "feature_loop debug (feature_list (vendor_features s2)) buf0 (vendor_features s2) =
             Inr (buf1, s3)" and
    s': "s' = s3\<lparr>features_string := Some buf1\<rparr>"
    by (auto simp: setup_cpu_available_features_def s1_def[symmetric] probe Let_def
        split: if_splits sum.splits)
  have "feats s2 mvendorid = feats s1 mvendorid"
    by (rule os_uarch_feats[OF s2]) simp
  then have "\<not> enabled (feats s2 mvendorid) \<or> val (feats s2 mvendorid) = Default_value"
    using vendor by (simp add: f1 enable_feature_def)
  then have no_overlay: "vendor_features s2 = s2"
    using vendor_noop vendor_noop_default by blast
  have "feats s' f = feats s2 f"
    using feature_loop_fields[OF loop] by (simp add: s' no_overlay)
  also have "\<dots> = feats s1 f"
    by (rule os_uarch_feats[OF s2 other])
  finally show ?thesis
    by (auto simp: f1 enable_feature_enabled)
qed

text \<open>
  Claim C8. In a detection pass that returns, \<open>getauxval\<close> is called if and only if the
  hardware probe reported failure; and when the probe succeeds, the pass is the same
  whatever the bitmask is. When the probe fails and the vendor id was not enabled before,
  an entry other than the translation mode (and that too, when the pseudo-file cannot be
  opened) is enabled at the end of the pass exactly if it was enabled before or it is in
  the registry and its feature bit is set in the bitmask: from a registry with nothing
  enabled, exactly the entries with their bit in the bitmask become enabled, and those
  whose bit is unset, or zero, remain disabled. For the step \<open>os_aux_features\<close> alone the
  same holds without condition; an entry whose bit is unset, or zero, stays as it was,
  and the step makes the one call of \<open>getauxval\<close>.
\<close>

theorem bitmask_fallback:
  "(setup_cpu_available_features debug env s = Inr s' \<and> Getauxval \<notin> set (calls s) \<longrightarrow>
      (Getauxval \<in> set (calls s') \<longleftrightarrow> hwprobe env = None)) \<and>
   (hwprobe env \<noteq> None \<longrightarrow>
      setup_cpu_available_features debug (env\<lparr>auxv := hwcap\<rparr>) s =
      setup_cpu_available_features debug env s) \<and>
   (setup_cpu_available_features debug env s = Inr s' \<and> hwprobe env = None \<and>
    \<not> enabled (feats s mvendorid) \<and> (f \<noteq> satp_mode \<or> cpuinfo env = None) \<longrightarrow>
      (enabled (feats s' f) \<longleftrightarrow>
         enabled (feats s f) \<or>
         f \<in> set (feature_list s) \<and> feature_bit (feats s f) AND auxv env \<noteq> 0)) \<and>
   (enabled (feats (os_aux_features env s) f) \<longleftrightarrow>
      enabled (feats s f) \<or>
      f \<in> set (feature_list s) \<and> feature_bit (feats s f) AND auxv env \<noteq> 0) \<and>
   (feature_bit (feats s f) AND auxv env = 0 \<longrightarrow>
      feats (os_aux_features env s) f = feats s f) \<and>
   calls (os_aux_features env s) = calls s @ [Getauxval]"
proof (intro conjI impI)
  assume "setup_cpu_available_features debug env s = Inr s' \<and> Getauxval \<notin> set (calls s)"
  then have "setup_cpu_available_features debug env s = Inr s'" "Getauxval \<notin> set (calls s)"
    by simp_all
  then show "Getauxval \<in> set (calls s') \<longleftrightarrow> hwprobe env = None"
    by (rule setup_calls_getauxval)
next
  assume "hwprobe env \<noteq> None"
  then show "setup_cpu_available_features debug (env\<lparr>auxv := hwcap\<rparr>) s =
             setup_cpu_available_features debug env s"
    by (rule setup_ignores_bitmask)
next
  assume "setup_cpu_available_features debug env s = Inr s' \<and> hwprobe env = None \<and>
    \<not> enabled (feats s mvendorid) \<and> (f \<noteq> satp_mode \<or> cpuinfo env = None)"
  then have "setup_cpu_available_features debug env s = Inr s'" "hwprobe env = None"
    "\<not> enabled (feats s mvendorid)" "f \<noteq> satp_mode \<or> cpuinfo env = None"
    by simp_all
  then show "enabled (feats s' f) \<longleftrightarrow>
         enabled (feats s f) \<or>
         f \<in> set (feature_list s) \<and> feature_bit (feats s f) AND auxv env \<noteq> 0"
    by (rule setup_bitmask_enabled)
next
  show "enabled (feats (os_aux_features env s) f) \<longleftrightarrow>
      enabled (feats s f) \<or>
      f \<in> set (feature_list s) \<and> feature_bit (feats s f) AND auxv env \<noteq> 0"
    by (auto simp: os_aux_features_eq enable_feature_enabled)
next
  assume "feature_bit (feats s f) AND auxv env = 0"
  then show "feats (os_aux_features env s) f = feats s f"
    by (simp add: os_aux_features_eq)
next
  show "calls (os_aux_features env s) = calls s @ [Getauxval]"
    by (simp add: os_aux_features_eq)
qed


subsection \<open>The features string\<close>

lemma appended_token_static:
  "appended_token (enable_feature v x) = appended_token x"
  by (simp add: appended_token_def enable_feature_static)

lemma display_token_well_named:
  "well_named v \<Longrightarrow> appended_token v = display_token v"
  by (cases "pretty v") (simp_all add: well_named_def appended_token_def display_token_def)

lemma feature_token_ok:
  assumes "pretty v \<noteq> []" and "length buf + length (appended_token v) < 1024"
  shows "feature_token debug buf (pretty v) = Inr (buf @ appended_token v)"
proof (cases "pretty v")
  case Nil
  with assms show ?thesis by simp
next
  case (Cons c rest)
  show ?thesis
  proof (cases "rest = []")
    case True
    with Cons assms show ?thesis
      by (simp add: feature_token_def appended_token_def strcat_def)
  next
    case False
    with Cons assms show ?thesis
      by (simp add: feature_token_def appended_token_def strcat_def)
  qed
qed

lemma feature_loop_ok:
  assumes "\<And>f. f \<in> set fs \<Longrightarrow> enabled (feats s f) \<Longrightarrow> feature_string (feats s f) \<Longrightarrow>
             pretty (feats s f) \<noteq> []"
    and "length buf +
         length (concat (map (\<lambda>f. appended_token (feats s f))
                   (filter (\<lambda>f. enabled (feats s f) \<and> feature_string (feats s f)) fs))) < 1024"
  shows "\<exists>s'. feature_loop debug fs buf s =
           Inr (buf @ concat (map (\<lambda>f. appended_token (feats s f))
                   (filter (\<lambda>f. enabled (feats s f) \<and> feature_string (feats s f)) fs)), s')"
  using assms
proof (induction fs arbitrary: buf s)
  case Nil
  show ?case by simp
next
  case (Cons g fs)
  define s1 where
    "s1 = (if feature_bit (feats s g) \<noteq> 0
           then s\<lparr>features := features s OR feature_bit (feats s g)\<rparr> else s)
          \<lparr>calls := calls s @ [Update_flag g]\<rparr>"
  have same: "feats s1 = feats s"
    by (simp add: s1_def)
  have step: "feature_loop debug (g # fs) buf s =
                (case (if feature_string (feats s g)
                       then feature_token debug buf (pretty (feats s g)) else Inr buf) of
                   Inl e \<Rightarrow> Inl e
                 | Inr b \<Rightarrow> feature_loop debug fs b s1)"
    if "enabled (feats s g)"
    using that unfolding s1_def by (simp add: Let_def split: sum.splits)
  show ?case
  proof (cases "enabled (feats s g)")
    case False
    have "\<exists>s'. feature_loop debug fs buf s =
           Inr (buf @ concat (map (\<lambda>f. appended_token (feats s f))
                   (filter (\<lambda>f. enabled (feats s f) \<and> feature_string (feats s f)) fs)), s')"
      using Cons.prems False by (intro Cons.IH) auto
    with False show ?thesis by simp
  next
    case True
    show ?thesis
    proof (cases "feature_string (feats s g)")
      case False
      have "\<exists>s'. feature_loop debug fs buf s1 =
           Inr (buf @ concat (map (\<lambda>f. appended_token (feats s1 f))
                   (filter (\<lambda>f. enabled (feats s1 f) \<and> feature_string (feats s1 f)) fs)), s')"
        using Cons.prems False by (intro Cons.IH) (auto simp: same)
      with True False show ?thesis
        by (simp add: step same del: feature_loop.simps)
    next
      case shown: True
      have name: "pretty (feats s g) \<noteq> []"
        using Cons.prems(1)[of g] True shown by simp
      have fit: "length buf + length (appended_token (feats s g)) < 1024"
        using Cons.prems(2) True shown by simp
      have "\<exists>s'. feature_loop debug fs (buf @ appended_token (feats s g)) s1 =
           Inr ((buf @ appended_token (feats s g)) @
                concat (map (\<lambda>f. appended_token (feats s1 f))
                   (filter (\<lambda>f. enabled (feats s1 f) \<and> feature_string (feats s1 f)) fs)), s')"
        using Cons.prems True shown by (intro Cons.IH) (auto simp: same)
      with True shown show ?thesis
        by (simp add: step same feature_token_ok[OF name fit] del: feature_loop.simps)
    qed
  qed
qed

lemma setup_bitmask_only:
  assumes probe: "hwprobe env = None" and nofile: "cpuinfo env = None"
    and off: "\<And>f. \<not> enabled (feats s f)"
    and names: "\<And>f. f \<in> set (feature_list s) \<Longrightarrow> feature_string (feats s f) \<Longrightarrow>
                  well_named (feats s f)"
    and bits: "debug \<longrightarrow> hwcap_asserts s"
    and fits: "length (canonical_string (feature_list s) (feats s)
                  {f. feature_bit (feats s f) AND auxv env \<noteq> 0}) < 1024"
  shows "\<exists>s'. setup_cpu_available_features debug env s = Inr s' \<and>
              (\<forall>f. enabled (feats s' f) \<longleftrightarrow>
                     f \<in> set (feature_list s) \<and> feature_bit (feats s f) AND auxv env \<noteq> 0) \<and>
              features_string s' =
                Some (canonical_string (feature_list s) (feats s) {f. enabled (feats s' f)}) \<and>
              calls s' = calls s @ [Probe_features False, Getauxval, Fopen False] @
                         map Update_flag (filter (\<lambda>f. enabled (feats s' f)) (feature_list s))"
proof -
  define on where "on f \<longleftrightarrow> f \<in> set (feature_list s) \<and> feature_bit (feats s f) AND auxv env \<noteq> 0"
    for f
  define s2 where
    "s2 = s\<lparr>feats := (\<lambda>f. if on f then enable_feature Default_value (feats s f) else feats s f),
            calls := calls s @ [Probe_features False, Getauxval, Fopen False]\<rparr>"
  have aux_step: "os_uarch_additional_features env
                    (os_aux_features env (s\<lparr>calls := calls s @ [Probe_features False]\<rparr>)) =
                  Inr (None, s2)"
    by (simp add: os_aux_features_eq os_uarch_additional_features_def nofile s2_def on_def
        cong: if_cong)
  have en: "enabled (feats s2 f) \<longleftrightarrow> on f" for f
    by (simp add: s2_def off enable_feature_enabled)
  have static: "pretty (feats s2 f) = pretty (feats s f)"
    "feature_string (feats s2 f) = feature_string (feats s f)" for f
    by (simp_all add: s2_def enable_feature_static)
  have tok: "appended_token (feats s2 f) = appended_token (feats s f)" for f
    by (simp add: s2_def appended_token_static)
  have vendor_step: "vendor_features s2 = s2"
  proof (cases "on mvendorid")
    case True
    then show ?thesis
      by (intro vendor_noop_default) (simp add: s2_def enable_feature_def)
  next
    case False
    then show ?thesis
      by (intro vendor_noop) (simp add: en)
  qed
  have list2: "feature_list s2 = feature_list s"
    by (simp add: s2_def)
  have filt: "filter (\<lambda>f. enabled (feats s2 f) \<and> feature_string (feats s2 f)) (feature_list s) =
              filter (\<lambda>f. f \<in> {f. feature_bit (feats s f) AND auxv env \<noteq> 0} \<and>
                           feature_string (feats s f)) (feature_list s)"
    by (rule filter_cong) (auto simp: en static on_def)
  have toks: "map (\<lambda>f. appended_token (feats s2 f)) fs = map (\<lambda>f. display_token (feats s f)) fs"
    if "set fs \<subseteq> {f \<in> set (feature_list s). feature_string (feats s f)}" for fs
    using that names by (auto simp: tok display_token_well_named)
  have str: "''rv64'' @ concat (map (\<lambda>f. appended_token (feats s2 f))
                (filter (\<lambda>f. enabled (feats s2 f) \<and> feature_string (feats s2 f)) (feature_list s))) =
             canonical_string (feature_list s) (feats s)
               {f. feature_bit (feats s f) AND auxv env \<noteq> 0}"
    unfolding canonical_string_def filt by (subst toks) auto
  have "\<exists>s'. feature_loop debug (feature_list s) ''rv64'' s2 =
           Inr (''rv64'' @ concat (map (\<lambda>f. appended_token (feats s2 f))
                   (filter (\<lambda>f. enabled (feats s2 f) \<and> feature_string (feats s2 f))
                      (feature_list s))), s')"
  proof (rule feature_loop_ok)
    fix f assume "f \<in> set (feature_list s)" "feature_string (feats s2 f)"
    then show "pretty (feats s2 f) \<noteq> []"
      using names[of f] by (simp add: static well_named_def)
  next
    show "length ''rv64'' + length (concat (map (\<lambda>f. appended_token (feats s2 f))
                   (filter (\<lambda>f. enabled (feats s2 f) \<and> feature_string (feats s2 f))
                      (feature_list s)))) < 1024"
      using fits unfolding str[symmetric] by simp
  qed
  then obtain s3 where
    loop: "feature_loop debug (feature_list s) ''rv64'' s2 =
             Inr (canonical_string (feature_list s) (feats s)
                    {f. feature_bit (feats s f) AND auxv env \<noteq> 0}, s3)"
    unfolding str by blast
  have s3: "feats s3 = feats s2" "calls s3 = calls s2 @
              map Update_flag (filter (\<lambda>f. enabled (feats s2 f)) (feature_list s))"
    using feature_loop_fields[OF loop] by simp_all
  have run: "setup_cpu_available_features debug env s =
               Inr (s3\<lparr>features_string :=
                        Some (canonical_string (feature_list s) (feats s)
                               {f. feature_bit (feats s f) AND auxv env \<noteq> 0})\<rparr>)"
    unfolding setup_cpu_available_features_def
    using bits
    by (simp add: probe aux_step vendor_step list2 loop strcat_def Let_def)
  have same_set: "canonical_string (feature_list s) (feats s) {f. on f} =
                  canonical_string (feature_list s) (feats s)
                    {f. feature_bit (feats s f) AND auxv env \<noteq> 0}"
    unfolding canonical_string_def
    by (rule arg_cong[where f = "\<lambda>fs. ''rv64'' @ concat (map _ fs)"], rule filter_cong)
       (auto simp: on_def)
  show ?thesis
    by (intro exI[of _ "s3\<lparr>features_string :=
                        Some (canonical_string (feature_list s) (feats s)
                               {f. feature_bit (feats s f) AND auxv env \<noteq> 0})\<rparr>"])
       (simp add: run s3 en same_set, simp add: on_def s2_def)
qed



lemma example_registry_named:
  "f \<in> set (feature_list example_registry) \<Longrightarrow> feature_string (feats example_registry f) \<Longrightarrow>
   well_named (feats example_registry f)"
  by (auto simp: example_registry_def example_feats_def declared_def well_named_def tolower_def)

lemma bitmask_ima_on:
  "feature_bit (feats example_registry f) AND auxv bitmask_ima \<noteq> 0 \<longleftrightarrow>
   f = ext_I \<or> f = ext_M \<or> f = ext_A"
  by (cases f)
     (simp_all add: example_registry_def example_feats_def declared_def bitmask_ima_def
        HWCAP_ISA_def nth_bit_def)

lemma bitmask_ima_string:
  "canonical_string (feature_list example_registry) (feats example_registry)
     {f. feature_bit (feats example_registry f) AND auxv bitmask_ima \<noteq> 0} = ''rv64ima''"
  by (simp add: bitmask_ima_on canonical_string_def)
     (simp add: example_registry_def example_feats_def declared_def display_token_def)



lemma probed_run:
  "map_sum (\<lambda>e. e)
     (\<lambda>s'. (calls s', enabled (feats s' ext_I), enabled (feats s' ext_V), features_string s'))
     (setup_cpu_available_features True probe_finds_v example_registry) =
   Inr ([Probe_features True, Fopen False, Update_flag ext_V], False, True, Some ''rv64v'')"
  by code_simp

text \<open>
  The hypotheses of C8 hold in two runs on the example registry. With the failed probe and
  the bits of I, M and A the pass returns and has called \<open>getauxval\<close>, I is enabled at its
  end and V, whose bit is not set, is not. With the probe that reports V and the bit of I
  in the bitmask, the pass is the same when the bitmask is zero: no call of \<open>getauxval\<close>,
  V enabled and I not.
\<close>

theorem bitmask_fallback_witness:
  "(\<exists>s'. setup_cpu_available_features True bitmask_ima example_registry = Inr s' \<and>
         Getauxval \<notin> set (calls example_registry) \<and>
         Getauxval \<in> set (calls s') \<and> hwprobe bitmask_ima = None \<and>
         \<not> enabled (feats example_registry mvendorid) \<and>
         enabled (feats s' ext_I) \<and> \<not> enabled (feats s' ext_V)) \<and>
   hwprobe probe_finds_v \<noteq> None \<and>
   map_sum (\<lambda>e. e)
     (\<lambda>s'. (calls s', enabled (feats s' ext_I), enabled (feats s' ext_V), features_string s'))
     (setup_cpu_available_features True (probe_finds_v\<lparr>auxv := 0\<rparr>) example_registry) =
   Inr ([Probe_features True, Fopen False, Update_flag ext_V], False, True, Some ''rv64v'') \<and>
   feature_bit (feats example_registry ext_V) AND auxv bitmask_ima = 0 \<and>
   feats (os_aux_features bitmask_ima example_registry) ext_V = feats example_registry ext_V"
proof -
  have src: "hwprobe bitmask_ima = None" "cpuinfo bitmask_ima = None"
    by (simp_all add: bitmask_ima_def)
  have bits: "True \<longrightarrow> hwcap_asserts example_registry"
    by (simp add: example_registry_asserts)
  have fits: "length (canonical_string (feature_list example_registry) (feats example_registry)
             {f. feature_bit (feats example_registry f) AND auxv bitmask_ima \<noteq> 0}) < 1024"
    by (simp add: bitmask_ima_string)
  obtain s' where
    run: "setup_cpu_available_features True bitmask_ima example_registry = Inr s'"
    using setup_bitmask_only[OF src example_registry_off example_registry_named bits fits]
    by blast
  have fresh: "Getauxval \<notin> set (calls example_registry)"
    by (simp add: example_registry_def)
  have listed: "ext_I \<in> set (feature_list example_registry)"
    by (simp add: example_registry_def)
  have set_I: "feature_bit (feats example_registry ext_I) AND auxv bitmask_ima \<noteq> 0"
    using bitmask_ima_on[of ext_I] by simp
  have unset: "feature_bit (feats example_registry ext_V) AND auxv bitmask_ima = 0"
    using bitmask_ima_on[of ext_V] by simp
  have probed: "hwprobe probe_finds_v \<noteq> None"
    by (simp add: probe_finds_v_def)
  have "Getauxval \<in> set (calls s') \<and> enabled (feats s' ext_I)"
    using bitmask_fallback[of True bitmask_ima example_registry s' 0 ext_I]
      run fresh src example_registry_off listed set_I
    by simp
  moreover have "\<not> enabled (feats s' ext_V)"
    using bitmask_fallback[of True bitmask_ima example_registry s' 0 ext_V]
      run src example_registry_off unset
    by simp
  ultimately have first:
    "\<exists>s'. setup_cpu_available_features True bitmask_ima example_registry = Inr s' \<and>
         Getauxval \<notin> set (calls example_registry) \<and>
         Getauxval \<in> set (calls s') \<and> hwprobe bitmask_ima = None \<and>
         \<not> enabled (feats example_registry mvendorid) \<and>
         enabled (feats s' ext_I) \<and> \<not> enabled (feats s' ext_V)"
    using run fresh src example_registry_off by (intro exI[of _ s']) simp
  have "setup_cpu_available_features True (probe_finds_v\<lparr>auxv := 0\<rparr>) example_registry =
        setup_cpu_available_features True probe_finds_v example_registry"
    using bitmask_fallback[of True probe_finds_v example_registry s' 0 ext_V] probed
    by simp
  then have second:
    "map_sum (\<lambda>e. e)
       (\<lambda>s'. (calls s', enabled (feats s' ext_I), enabled (feats s' ext_V), features_string s'))
       (setup_cpu_available_features True (probe_finds_v\<lparr>auxv := 0\<rparr>) example_registry) =
     Inr ([Probe_features True, Fopen False, Update_flag ext_V], False, True, Some ''rv64v'')"
    by (simp only: probed_run)
  have "feats (os_aux_features bitmask_ima example_registry) ext_V = feats example_registry ext_V"
    using bitmask_fallback[of True bitmask_ima example_registry s' 0 ext_V] unset
    by simp
  then show ?thesis
    using first second probed unset by simp
qed

lemma vendor_probed_id:
  "enabled (feats vendor_probed mvendorid) \<and>
   val (feats vendor_probed mvendorid) = Number RIVOS_MVENDORID"
  by (simp add: vendor_probed_def enable_def enable_feature_def RIVOS_MVENDORID_def)

text \<open>
  The overlay at work, for C6: with the vendor id of the table, C stays enabled and V
  becomes enabled.
\<close>

theorem vendor_overlay_monotonic_witness:
  "enabled (feats vendor_probed ext_C) \<and> enabled (feats (vendor_features vendor_probed) ext_C) \<and>
   \<not> enabled (feats vendor_probed ext_V) \<and> enabled (feats (vendor_features vendor_probed) ext_V)"
proof -
  have c: "enabled (feats vendor_probed ext_C)"
    by (simp add: vendor_probed_def enable_def enable_feature_def)
  have v: "\<not> enabled (feats vendor_probed ext_V)"
    by (simp add: vendor_probed_def enable_def example_registry_off)
  have "enabled (feats (rivos_features vendor_probed) ext_V)"
    by (simp add: rivos_features_def enable_def enable_feature_def)
  then have v': "enabled (feats (vendor_features vendor_probed) ext_V)"
    using vendor_probed_id by (simp add: vendor_features_def)
  show ?thesis
    using vendor_overlay_monotonic[of vendor_probed ext_C] c v v' by simp
qed


section \<open>Properties of the pseudo-file scan\<close>

subsection \<open>The scenario of the spec, run\<close>

declare cpuinfo_loop.simps [simp del]

lemma scan_sv48_u74:
  "cpuinfo_loop scenario_cpuinfo (line_buffer cpuinfo_sv48_u74) VM_NOTSET None [] =
     Inr (VM_MBARE, Some ''sifive-u74\<newline>'',
          [Fgets (Some ''mmu : sv48\<newline>''),
           Fgets (Some ''uarch : sifive-u74\<newline>''), Store_outside_block,
           Fgets (Some ''isa : rv64imafdc\<newline>'')])"
  by code_simp

subsection \<open>One step of the loop\<close>

lemma fgets_shorter:
  assumes "fgets n f = Some (line, f')" and "1 < n"
  shows "length f' < length f"
proof -
  define upto where
    "upto = takeWhile (\<lambda>c. c \<noteq> CHR ''\<newline>'') f @
            take 1 (dropWhile (\<lambda>c. c \<noteq> CHR ''\<newline>'') f)"
  from assms have ne: "f \<noteq> []"
    by (auto simp: fgets_def split: if_splits)
  then obtain c cs where f: "f = c # cs"
    by (cases f) auto
  have "upto \<noteq> []"
    unfolding upto_def by (simp add: f)
  then have "take (n - 1) upto \<noteq> []"
    using assms(2) by (cases upto) simp_all
  moreover have "fgets n f = Some (take (n - 1) upto, drop (length (take (n - 1) upto)) f)"
    unfolding fgets_def Let_def upto_def using ne by simp
  then have "line = take (n - 1) upto" "f' = drop (length line) f"
    using assms by simp_all
  ultimately show ?thesis
    using ne by (cases line) auto
qed

lemma loop_eof:
  "fgets 512 f = None \<Longrightarrow> cpuinfo_loop f buf mode ret tr = Inr (mode, ret, tr @ [Fgets None])"
  by (subst cpuinfo_loop.simps) simp

lemma loop_done:
  "fgets 512 f = Some (line, f') \<Longrightarrow> mode \<noteq> VM_NOTSET \<Longrightarrow> ret \<noteq> None \<Longrightarrow>
   cpuinfo_loop f buf mode ret tr = Inr (mode, ret, tr @ [Fgets (Some line)])"
  by (subst cpuinfo_loop.simps) auto

lemma loop_fail:
  "fgets 512 f = Some (line, f') \<Longrightarrow> mode = VM_NOTSET \<or> ret = None \<Longrightarrow>
   cpuinfo_line (store_line line buf) mode ret = Inl e \<Longrightarrow>
   cpuinfo_loop f buf mode ret tr = Inl e"
  by (subst cpuinfo_loop.simps) auto

lemma loop_step:
  "fgets 512 f = Some (line, f') \<Longrightarrow> mode = VM_NOTSET \<or> ret = None \<Longrightarrow>
   cpuinfo_line (store_line line buf) mode ret = Inr (mode', ret', ev) \<Longrightarrow>
   cpuinfo_loop f buf mode ret tr =
     cpuinfo_loop f' (store_line line buf) mode' ret' (tr @ [Fgets (Some line)] @ ev)"
  by (subst cpuinfo_loop.simps) auto

lemma loop_halts:
  assumes "mode \<noteq> VM_NOTSET" and "ret \<noteq> None"
  shows "cpuinfo_loop f buf mode ret tr =
           Inr (mode, ret, tr @ [Fgets (map_option fst (fgets 512 f))])"
proof (cases "fgets 512 f")
  case None
  then show ?thesis by (simp add: loop_eof)
next
  case (Some a)
  obtain line f' where "a = (line, f')" by (cases a)
  with Some have got: "fgets 512 f = Some (line, f')" by simp
  show ?thesis
    using assms by (simp add: loop_done[OF got] got)
qed

lemma cpuinfo_loop_trace:
  "cpuinfo_loop f buf mode ret tr =
     map_sum (\<lambda>e. e) (\<lambda>(m, r, t). (m, r, tr @ t)) (cpuinfo_loop f buf mode ret [])"
proof (induction "length f" arbitrary: f buf mode ret tr rule: less_induct)
  case less
  show ?case
  proof (cases "fgets 512 f")
    case None
    then show ?thesis
      by (simp add: loop_eof)
  next
    case (Some a)
    obtain line f' where a: "a = (line, f')" by (cases a)
    have got: "fgets 512 f = Some (line, f')"
      using Some a by simp
    have shorter: "length f' < length f"
      using fgets_shorter[OF got] by simp
    show ?thesis
    proof (cases "mode = VM_NOTSET \<or> ret = None")
      case False
      then show ?thesis
        by (simp add: loop_done[OF got])
    next
      case True
      show ?thesis
      proof (cases "cpuinfo_line (store_line line buf) mode ret")
        case (Inl e)
        then show ?thesis
          by (simp add: loop_fail[OF got True])
      next
        case (Inr b)
        obtain mode' ret' ev where b: "b = (mode', ret', ev)" by (cases b)
        have line: "cpuinfo_line (store_line line buf) mode ret = Inr (mode', ret', ev)"
          using Inr b by simp
        show ?thesis
          unfolding loop_step[OF got True line]
          by (subst less[OF shorter], subst (2) less[OF shorter])
             (cases "cpuinfo_loop f' (store_line line buf) mode' ret' []"; auto)
      qed
    qed
  qed
qed

lemma os_uarch_sv48_u74:
  "os_uarch_additional_features cpuinfo_sv48_u74 s =
     Inr (Some ''sifive-u74\<newline>'',
          enable satp_mode (Mode VM_MBARE)
            (s\<lparr>calls := calls s @
                 [Fopen True, Fgets (Some ''mmu : sv48\<newline>''),
                  Fgets (Some ''uarch : sifive-u74\<newline>''), Store_outside_block,
                  Fgets (Some ''isa : rv64imafdc\<newline>''), Fclose]\<rparr>))"
proof -
  have opened: "cpuinfo cpuinfo_sv48_u74 = Some scenario_cpuinfo"
    by (simp add: cpuinfo_sv48_u74_def)
  show ?thesis
    unfolding os_uarch_additional_features_def opened
    by (simp add: cpuinfo_loop_trace[of _ _ _ _ "calls s @ [Fopen True]"] scan_sv48_u74)
qed

text \<open>
  The whole detection pass on the example registry with that pseudo-file as the only
  source: the name, with its newline, and a comma come before the base tag.
\<close>

lemma setup_sv48_u74:
  "map_sum (\<lambda>e. e) features_string
     (setup_cpu_available_features True cpuinfo_sv48_u74 example_registry) =
   Inr (Some ''sifive-u74\<newline>,rv64'')"
proof -
  define s1 where "s1 = example_registry\<lparr>calls := [Probe_features False, Getauxval]\<rparr>"
  define s2 where
    "s2 = enable satp_mode (Mode VM_MBARE)
            (s1\<lparr>calls := calls s1 @
                 [Fopen True, Fgets (Some ''mmu : sv48\<newline>''),
                  Fgets (Some ''uarch : sifive-u74\<newline>''), Store_outside_block,
                  Fgets (Some ''isa : rv64imafdc\<newline>''), Fclose]\<rparr>)"
  have aux_step:
    "os_aux_features cpuinfo_sv48_u74
       (example_registry\<lparr>calls := calls example_registry @ [Probe_features False]\<rparr>) = s1"
    by (simp add: os_aux_features_eq cpuinfo_sv48_u74_def s1_def)
       (simp add: example_registry_def)
  have file_step:
    "os_uarch_additional_features cpuinfo_sv48_u74 s1 = Inr (Some ''sifive-u74\<newline>'', s2)"
    by (simp add: os_uarch_sv48_u74 s2_def)
  have en: "enabled (feats s2 f) \<longleftrightarrow> f = satp_mode" for f
    by (simp add: s2_def s1_def enable_def enable_feature_def example_registry_off)
  have hidden: "\<not> feature_string (feats s2 satp_mode)"
    by (simp add: s2_def s1_def enable_def enable_feature_def example_registry_def
        example_feats_def declared_def)
  have vendor_step: "vendor_features s2 = s2"
    by (rule vendor_noop) (simp add: en)
  have none: "filter (\<lambda>f. enabled (feats s2 f) \<and> feature_string (feats s2 f)) fs = []" for fs
    using hidden by (induction fs) (auto simp: en)
  have "\<exists>s'. feature_loop True (feature_list s2) ''sifive-u74\<newline>,rv64'' s2 =
           Inr (''sifive-u74\<newline>,rv64'' @
                concat (map (\<lambda>f. appended_token (feats s2 f))
                   (filter (\<lambda>f. enabled (feats s2 f) \<and> feature_string (feats s2 f))
                      (feature_list s2))), s')"
    by (rule feature_loop_ok) (simp_all add: en hidden none)
  then obtain s3 where
    loop: "feature_loop True (feature_list s2) ''sifive-u74\<newline>,rv64'' s2 =
             Inr (''sifive-u74\<newline>,rv64'', s3)"
    by (auto simp: none)
  have probe: "hwprobe cpuinfo_sv48_u74 = None"
    by (simp add: cpuinfo_sv48_u74_def)
  show ?thesis
    unfolding setup_cpu_available_features_def
    by (simp add: example_registry_asserts probe aux_step file_step vendor_step loop
        strcat_def Let_def)
qed

subsection \<open>The scan in terms of the lines\<close>

lemma parse_satp_mode_set: "parse_satp_mode p \<noteq> VM_NOTSET"
  by (simp add: parse_satp_mode_def)

lemma parse_satp_mode_colon: "parse_satp_mode (CHR '':'' # rest) = VM_MBARE"
  by (simp add: parse_satp_mode_def)

lemma from_colon_shape:
  "CHR '':'' \<in> set l \<Longrightarrow> \<exists>rest. from_colon l = CHR '':'' # rest"
  unfolding from_colon_def by (induction l) auto

lemma from_colon_empty: "CHR '':'' \<notin> set l \<Longrightarrow> from_colon l = []"
  unfolding from_colon_def by (induction l) auto

lemma strchr_colon:
  "strchr l CHR '':'' = (if CHR '':'' \<in> set l then Some (from_colon l) else None)"
proof (cases "CHR '':'' \<in> set l")
  case True
  then obtain rest where "from_colon l = CHR '':'' # rest"
    using from_colon_shape by blast
  then show ?thesis
    using True by (simp add: strchr_def from_colon_def)
next
  case False
  have none: "dropWhile (\<lambda>x. x \<noteq> CHR '':'') l = []"
    using from_colon_empty[OF False] unfolding from_colon_def .
  show ?thesis
    unfolding strchr_def none using False by simp
qed

lemma cstr_drop: "CHR 0x00 \<notin> set l \<Longrightarrow> cstr (l @ CHR 0x00 # rest) = l"
  unfolding cstr_def by (induction l) auto

lemma cstr_store_line: "CHR 0x00 \<notin> set l \<Longrightarrow> cstr (store_line l buf) = l"
  unfolding store_line_def by (rule cstr_drop)

lemma text_line_split:
  assumes "text_line l"
  shows "l = butlast l @ [CHR ''\<newline>'']"
  using assms append_butlast_last_id[of l] by (simp add: text_line_def)

lemma fgets_text_line:
  assumes "text_line l"
  shows "fgets 512 (l @ rest) = Some (l, rest)"
proof -
  define b where "b = butlast l"
  have l: "l = b @ [CHR ''\<newline>'']"
    using text_line_split[OF assms] by (simp add: b_def)
  have nl: "CHR ''\<newline>'' \<notin> set b"
    using assms by (simp add: text_line_def b_def)
  have nl': "x \<noteq> CHR ''\<newline>''" if "x \<in> set b" for x
    using nl that by auto
  have "takeWhile (\<lambda>c. c \<noteq> CHR ''\<newline>'') (b @ CHR ''\<newline>'' # rest) =
        b @ takeWhile (\<lambda>c. c \<noteq> CHR ''\<newline>'') (CHR ''\<newline>'' # rest)"
    by (rule takeWhile_append2) (rule nl')
  then have tw: "takeWhile (\<lambda>c. c \<noteq> CHR ''\<newline>'') (l @ rest) = b"
    by (subst l) simp
  have "dropWhile (\<lambda>c. c \<noteq> CHR ''\<newline>'') (b @ CHR ''\<newline>'' # rest) =
        dropWhile (\<lambda>c. c \<noteq> CHR ''\<newline>'') (CHR ''\<newline>'' # rest)"
    by (rule dropWhile_append2) (rule nl')
  then have dw: "dropWhile (\<lambda>c. c \<noteq> CHR ''\<newline>'') (l @ rest) = CHR ''\<newline>'' # rest"
    by (subst l) simp
  have upto: "takeWhile (\<lambda>c. c \<noteq> CHR ''\<newline>'') (l @ rest) @
              take 1 (dropWhile (\<lambda>c. c \<noteq> CHR ''\<newline>'') (l @ rest)) = l"
    unfolding tw dw using l by simp
  have len: "length l \<le> 511"
    using assms by (simp add: text_line_def)
  have ne: "l @ rest \<noteq> []"
    using assms by (simp add: text_line_def)
  show ?thesis
    unfolding fgets_def Let_def upto using ne len by simp
qed

text \<open>The body of the loop on a line of text: no byte beyond the line is read.\<close>

lemma cpuinfo_line_text:
  assumes "text_line l"
  shows "\<exists>ev. cpuinfo_line (store_line l buf) mode ret =
               Inr (found_mode mode [l], found_uarch ret [l], ev) \<and> fetched ev = []"
proof -
  have nul: "CHR 0x00 \<notin> set l" and len: "length l < 512"
    using assms by (simp_all add: text_line_def)
  have s: "cstr (store_line l buf) = l"
    by (rule cstr_store_line[OF nul])
  show ?thesis
  proof (cases "CHR '':'' \<in> set l")
    case False
    then show ?thesis
      by (cases ret)
         (simp_all add: cpuinfo_line_def s strchr_colon found_mode_def found_uarch_def
            is_mmu_def is_uarch_def fetched_def)
  next
    case True
    define p where "p = from_colon l"
    define pre where "pre = takeWhile (\<lambda>c. c \<noteq> CHR '':'') l"
    have l: "l = pre @ p"
      by (simp add: pre_def p_def from_colon_def)
    obtain rest where p: "p = CHR '':'' # rest"
      using from_colon_shape[OF True] by (auto simp: p_def)
    have "last l = CHR ''\<newline>''"
      using assms by (simp add: text_line_def)
    then have last_p: "last p = CHR ''\<newline>''"
      using l p by simp
    then have rest_ne: "rest \<noteq> []"
      using p by auto
    then obtain c rest' where rest: "rest = c # rest'"
      by (cases rest) auto
    have last_rest: "last rest = CHR ''\<newline>''"
      using last_p p rest_ne by simp
    have "CHR ''\<newline>'' \<notin> set (butlast l)"
      using assms by (simp add: text_line_def)
    moreover have "butlast l = pre @ CHR '':'' # butlast rest"
      using l p rest_ne by (simp add: butlast_append)
    ultimately have nl: "CHR ''\<newline>'' \<notin> set (butlast rest)"
      by simp
    have rest_split: "rest = butlast rest @ [CHR ''\<newline>'']"
      using rest_ne last_rest append_butlast_last_id[of rest] by simp
    have nl': "x \<noteq> CHR ''\<newline>''" if "x \<in> set (butlast rest)" for x
      using nl that by auto
    have "takeWhile (\<lambda>x. x \<noteq> CHR ''\<newline>'') (butlast rest @ [CHR ''\<newline>'']) =
          butlast rest @ takeWhile (\<lambda>x. x \<noteq> CHR ''\<newline>'') [CHR ''\<newline>'']"
      by (rule takeWhile_append2) (rule nl')
    then have "takeWhile (\<lambda>x. x \<noteq> CHR ''\<newline>'') rest = butlast rest"
      using rest_split by simp
    then have k: "strcspn p CHR ''\<newline>'' = length rest"
      using rest_ne by (simp add: strcspn_def p)
    have colon: "length l - length p = length pre"
      by (simp add: l)
    have "512 - length l = Suc (511 - length l)"
      using len by simp
    then have "take 512 (store_line l buf) =
               l @ CHR 0x00 # take (511 - length l) (drop (length l + 1) buf)"
      using len by (simp add: store_line_def)
    then have bytes: "drop (Suc (Suc (length pre))) (take 512 (store_line l buf)) =
                      rest' @ CHR 0x00 # take (511 - length l) (drop (length l + 1) buf)"
      by (simp add: l p rest)
    have rest'_nul: "CHR 0x00 \<notin> set rest'"
      using nul l p rest by simp
    have block: "cstr (rest' @ CHR 0x00 # behind) = rest'" for behind
      by (rule cstr_drop[OF rest'_nul])
    have mode_eq:
      "(if mode = VM_NOTSET \<and> take 3 l = ''mmu'' then parse_satp_mode p else mode) =
       found_mode mode [l]"
      using True by (auto simp: found_mode_def is_mmu_def p_def)
    show ?thesis
    proof (cases "ret = None \<and> take 5 l = ''uarch''")
      case False
      then have "found_uarch ret [l] = ret"
        using True by (auto simp: found_uarch_def is_uarch_def split: option.splits)
      then show ?thesis
        using False mode_eq True
        by (auto simp: cpuinfo_line_def s strchr_colon p_def[symmetric] Let_def fetched_def)
    next
      case uarch: True
      have "found_uarch ret [l] = Some rest'"
        using uarch True by (simp add: found_uarch_def is_uarch_def p_def[symmetric] p rest)
      moreover have "cpuinfo_line (store_line l buf) mode ret =
                       Inr (found_mode mode [l], Some rest', [Store_outside_block])"
        using uarch True mode_eq
        by (simp add: cpuinfo_line_def s strchr_colon p_def[symmetric] Let_def colon bytes
            block k rest)
      ultimately show ?thesis
        by (simp add: fetched_def)
    qed
  qed
qed

lemma found_mode_Cons: "found_mode (found_mode mode [l]) ls = found_mode mode (l # ls)"
  by (simp add: found_mode_def parse_satp_mode_set)

lemma found_uarch_Cons: "found_uarch (found_uarch ret [l]) ls = found_uarch ret (l # ls)"
  by (cases ret) (simp_all add: found_uarch_def)

lemma found_mode_done: "mode \<noteq> VM_NOTSET \<Longrightarrow> found_mode mode ls = mode"
  by (simp add: found_mode_def)

lemma found_uarch_done: "ret \<noteq> None \<Longrightarrow> found_uarch ret ls = ret"
  by (cases ret) (simp_all add: found_uarch_def)

lemma cpuinfo_loop_text:
  "list_all text_line ls \<Longrightarrow>
   scanned (cpuinfo_loop (concat ls) buf mode ret tr) =
     Inr (found_mode mode ls, found_uarch ret ls)"
proof (induction ls arbitrary: buf mode ret tr)
  case Nil
  have "fgets 512 [] = None"
    by (simp add: fgets_def)
  then show ?case
    by (cases ret) (simp_all add: loop_eof scanned_def found_mode_def found_uarch_def)
next
  case (Cons l ls)
  then have l: "text_line l" and ls: "list_all text_line ls"
    by simp_all
  have got: "fgets 512 (l @ concat ls) = Some (l, concat ls)"
    by (rule fgets_text_line[OF l])
  show ?case
    unfolding concat.simps
  proof (cases "mode = VM_NOTSET \<or> ret = None")
    case False
    then show "scanned (cpuinfo_loop (l @ concat ls) buf mode ret tr) =
                 Inr (found_mode mode (l # ls), found_uarch ret (l # ls))"
      by (simp add: loop_done[OF got] scanned_def found_mode_done found_uarch_done)
  next
    case True
    obtain ev where
      step: "cpuinfo_line (store_line l buf) mode ret =
               Inr (found_mode mode [l], found_uarch ret [l], ev)"
      using cpuinfo_line_text[OF l] by blast
    show "scanned (cpuinfo_loop (l @ concat ls) buf mode ret tr) =
            Inr (found_mode mode (l # ls), found_uarch ret (l # ls))"
      unfolding loop_step[OF got True step]
      by (simp only: Cons.IH[OF ls] found_mode_Cons found_uarch_Cons)
  qed
qed

subsection \<open>The lines that are fetched\<close>

lemma fetched_simps:
  "fetched [] = []"
  "fetched (tr @ tr') = fetched tr @ fetched tr'"
  "fetched (Fgets line # tr) = line # fetched tr"
  by (simp_all add: fetched_def)

lemma still_searching:
  assumes "found_mode mode ls = VM_NOTSET \<or> found_uarch ret ls = None"
  shows "mode = VM_NOTSET \<or> ret = None"
proof (rule ccontr)
  assume "\<not> (mode = VM_NOTSET \<or> ret = None)"
  then have "found_mode mode ls = mode" "found_uarch ret ls = ret" "mode \<noteq> VM_NOTSET"
    "ret \<noteq> None"
    by (simp_all add: found_mode_done found_uarch_done)
  with assms show False
    by simp
qed

lemma loop_fetched:
  assumes "list_all text_line (before @ l # after)"
    and "found_mode mode before = VM_NOTSET \<or> found_uarch ret before = None"
    and "found_mode mode (before @ [l]) \<noteq> VM_NOTSET"
    and "found_uarch ret (before @ [l]) \<noteq> None"
  shows "map_sum (\<lambda>e. e) (\<lambda>(m, r, t). fetched t)
           (cpuinfo_loop (concat (before @ l # after)) buf mode ret tr) =
         Inr (fetched tr @ map Some (before @ [l]) @
              [case after of [] \<Rightarrow> None | a # rest \<Rightarrow> Some a])"
  using assms
proof (induction before arbitrary: buf mode ret tr)
  case Nil
  then have l: "text_line l" and after: "list_all text_line after"
    by simp_all
  have todo: "mode = VM_NOTSET \<or> ret = None"
    by (rule still_searching[OF Nil.prems(2)])
  have got: "fgets 512 (l @ concat after) = Some (l, concat after)"
    by (rule fgets_text_line[OF l])
  obtain ev where
    step: "cpuinfo_line (store_line l buf) mode ret =
             Inr (found_mode mode [l], found_uarch ret [l], ev)" and
    ev: "fetched ev = []"
    using cpuinfo_line_text[OF l] by blast
  have next_line: "map_option fst (fgets 512 (concat after)) =
                   (case after of [] \<Rightarrow> None | a # rest \<Rightarrow> Some a)"
  proof (cases after)
    case Nil
    then show ?thesis by (simp add: fgets_def)
  next
    case (Cons a rest)
    then have "text_line a"
      using after by simp
    then show ?thesis
      using Cons by (simp add: fgets_text_line)
  qed
  have "cpuinfo_loop (l @ concat after) buf mode ret tr =
          Inr (found_mode mode [l], found_uarch ret [l],
               (tr @ [Fgets (Some l)] @ ev) @
               [Fgets (case after of [] \<Rightarrow> None | a # rest \<Rightarrow> Some a)])"
    unfolding loop_step[OF got todo step] next_line[symmetric]
    using Nil.prems(3,4) by (intro loop_halts) simp_all
  then show ?case
    by (simp add: fetched_simps ev)
next
  case (Cons b before)
  then have b: "text_line b" and rest: "list_all text_line (before @ l # after)"
    by simp_all
  have todo: "mode = VM_NOTSET \<or> ret = None"
    by (rule still_searching[OF Cons.prems(2)])
  have got: "fgets 512 (b @ concat (before @ l # after)) = Some (b, concat (before @ l # after))"
    by (rule fgets_text_line[OF b])
  obtain ev where
    step: "cpuinfo_line (store_line b buf) mode ret =
             Inr (found_mode mode [b], found_uarch ret [b], ev)" and
    ev: "fetched ev = []"
    using cpuinfo_line_text[OF b] by blast
  have "map_sum (\<lambda>e. e) (\<lambda>(m, r, t). fetched t)
          (cpuinfo_loop (concat (before @ l # after)) (store_line b buf)
             (found_mode mode [b]) (found_uarch ret [b]) (tr @ [Fgets (Some b)] @ ev)) =
        Inr (fetched (tr @ [Fgets (Some b)] @ ev) @ map Some (before @ [l]) @
             [case after of [] \<Rightarrow> None | a # rest \<Rightarrow> Some a])"
    using Cons.prems(2,3,4)
    by (intro Cons.IH[OF rest]) (simp_all add: found_mode_Cons found_uarch_Cons)
  then show ?case
    unfolding append_Cons concat.simps loop_step[OF got todo step]
    by (simp add: fetched_simps ev)
qed

lemma scan_fetched:
  assumes "list_all text_line (before @ l # after)"
    and "\<not> both_found before" and "both_found (before @ [l])"
  shows "map_sum (\<lambda>e. e) (\<lambda>(m, r, t). fetched t)
           (cpuinfo_loop (concat (before @ l # after)) buf VM_NOTSET None tr) =
         Inr (fetched tr @ map Some (before @ [l]) @
              [case after of [] \<Rightarrow> None | a # rest \<Rightarrow> Some a])"
  using assms unfolding both_found_def by (intro loop_fetched) auto

subsection \<open>The order of the lines, and lines that are absent\<close>

lemma mmu_not_uarch: "is_mmu l \<Longrightarrow> \<not> is_uarch l"
  by (cases l) (auto simp: is_mmu_def is_uarch_def)

lemma find_skip: "list_all (\<lambda>l. \<not> P l) mid \<Longrightarrow> find P (mid @ rest) = find P rest"
  by (induction mid) simp_all

lemma find_swap:
  assumes "list_all (\<lambda>l. \<not> P l) mid" and "\<not> (P l1 \<and> P l2)"
  shows "find P (pre @ l1 # mid @ l2 # post) = find P (pre @ l2 # mid @ l1 # post)"
proof (induction pre)
  case Nil
  show ?case
    using assms(2) by (simp add: find_skip[OF assms(1)])
next
  case (Cons x pre)
  then show ?case by simp
qed

lemma find_filter_keep: "(\<And>l. P l \<Longrightarrow> Q l) \<Longrightarrow> find P (filter Q ls) = find P ls"
  by (induction ls) auto

lemma find_filter_none: "(\<And>l. Q l \<Longrightarrow> \<not> P l) \<Longrightarrow> find P (filter Q ls) = None"
  by (induction ls) auto

lemma text_lines_filter: "list_all text_line ls \<Longrightarrow> list_all text_line (filter Q ls)"
  by (simp add: list_all_iff)

lemma text_lines_swap:
  "list_all text_line (pre @ l1 # mid @ l2 # post) \<Longrightarrow>
   list_all text_line (pre @ l2 # mid @ l1 # post)"
  by (auto simp: list_all_iff)

lemma scan_swap:
  assumes lines: "list_all text_line (pre @ l1 # mid @ l2 # post)"
    and keys: "is_mmu l1" "is_uarch l2"
    and between: "list_all (\<lambda>l. \<not> is_mmu l \<and> \<not> is_uarch l) mid"
  shows "scanned (cpuinfo_loop (concat (pre @ l1 # mid @ l2 # post)) buf VM_NOTSET None tr) =
         scanned (cpuinfo_loop (concat (pre @ l2 # mid @ l1 # post)) buf' VM_NOTSET None tr')"
proof -
  have no_mmu: "list_all (\<lambda>l. \<not> is_mmu l) mid" and no_uarch: "list_all (\<lambda>l. \<not> is_uarch l) mid"
    using between by (simp_all add: list_all_iff)
  have one_mmu: "\<not> (is_mmu l1 \<and> is_mmu l2)" and one_uarch: "\<not> (is_uarch l1 \<and> is_uarch l2)"
    using keys mmu_not_uarch by blast+
  have "found_mode VM_NOTSET (pre @ l1 # mid @ l2 # post) =
        found_mode VM_NOTSET (pre @ l2 # mid @ l1 # post)"
    unfolding found_mode_def find_swap[OF no_mmu one_mmu] ..
  moreover have "found_uarch None (pre @ l1 # mid @ l2 # post) =
                 found_uarch None (pre @ l2 # mid @ l1 # post)"
    unfolding found_uarch_def find_swap[OF no_uarch one_uarch] ..
  ultimately show ?thesis
    by (simp only: cpuinfo_loop_text[OF lines] cpuinfo_loop_text[OF text_lines_swap[OF lines]])
qed

lemma scan_without_uarch:
  assumes "list_all text_line ls"
  shows "scanned (cpuinfo_loop (concat (filter (\<lambda>l. \<not> is_uarch l) ls)) buf VM_NOTSET None tr) =
         Inr (found_mode VM_NOTSET ls, None)"
proof -
  have "find is_mmu (filter (\<lambda>l. \<not> is_uarch l) ls) = find is_mmu ls"
    by (rule find_filter_keep) (rule mmu_not_uarch)
  moreover have "find is_uarch (filter (\<lambda>l. \<not> is_uarch l) ls) = None"
    by (rule find_filter_none) simp
  ultimately show ?thesis
    by (simp add: cpuinfo_loop_text[OF text_lines_filter[OF assms]] found_mode_def
        found_uarch_def)
qed

lemma scan_without_mmu:
  assumes "list_all text_line ls"
  shows "scanned (cpuinfo_loop (concat (filter (\<lambda>l. \<not> is_mmu l) ls)) buf VM_NOTSET None tr) =
         Inr (VM_NOTSET, found_uarch None ls)"
proof -
  have "find is_uarch (filter (\<lambda>l. \<not> is_mmu l) ls) = find is_uarch ls"
    by (rule find_filter_keep) (use mmu_not_uarch in blast)
  moreover have "find is_mmu (filter (\<lambda>l. \<not> is_mmu l) ls) = None"
    by (rule find_filter_none) simp
  ultimately show ?thesis
    by (simp add: cpuinfo_loop_text[OF text_lines_filter[OF assms]] found_mode_def
        found_uarch_def)
qed

lemma scan_without_both:
  assumes "list_all text_line ls"
  shows "scanned (cpuinfo_loop (concat (filter (\<lambda>l. \<not> is_mmu l \<and> \<not> is_uarch l) ls)) buf
                    VM_NOTSET None tr) = Inr (VM_NOTSET, None)"
proof -
  have "find is_uarch (filter (\<lambda>l. \<not> is_mmu l \<and> \<not> is_uarch l) ls) = None"
    by (rule find_filter_none) simp
  moreover have "find is_mmu (filter (\<lambda>l. \<not> is_mmu l \<and> \<not> is_uarch l) ls) = None"
    by (rule find_filter_none) simp
  ultimately show ?thesis
    by (simp add: cpuinfo_loop_text[OF text_lines_filter[OF assms]] found_mode_def
        found_uarch_def)
qed

subsection \<open>The mode that the scan stores\<close>

lemma cpuinfo_line_mode:
  assumes "cpuinfo_line buf mode ret = Inr (m, r, ev)"
  shows "m = mode \<or> m = VM_MBARE"
proof (cases "CHR '':'' \<in> set (cstr buf)")
  case False
  with assms show ?thesis
    by (simp add: cpuinfo_line_def strchr_colon)
next
  case True
  then obtain rest where "from_colon (cstr buf) = CHR '':'' # rest"
    using from_colon_shape by blast
  with assms True show ?thesis
    by (auto simp: cpuinfo_line_def strchr_colon Let_def parse_satp_mode_colon
        split: if_splits)
qed

lemma cpuinfo_loop_mode:
  "cpuinfo_loop f buf mode ret tr = Inr (m, r, t) \<Longrightarrow>
   mode = VM_NOTSET \<or> mode = VM_MBARE \<Longrightarrow> m = VM_NOTSET \<or> m = VM_MBARE"
proof (induction "length f" arbitrary: f buf mode ret tr rule: less_induct)
  case less
  show ?case
  proof (cases "fgets 512 f")
    case None
    with less.prems show ?thesis
      by (simp add: loop_eof)
  next
    case (Some a)
    obtain line f' where a: "a = (line, f')" by (cases a)
    have got: "fgets 512 f = Some (line, f')"
      using Some a by simp
    have shorter: "length f' < length f"
      using fgets_shorter[OF got] by simp
    show ?thesis
    proof (cases "mode = VM_NOTSET \<or> ret = None")
      case False
      with less.prems show ?thesis
        by (simp add: loop_done[OF got])
    next
      case True
      show ?thesis
      proof (cases "cpuinfo_line (store_line line buf) mode ret")
        case (Inl e)
        with less.prems show ?thesis
          by (simp add: loop_fail[OF got True])
      next
        case (Inr b)
        obtain mode' ret' ev where b: "b = (mode', ret', ev)" by (cases b)
        have step: "cpuinfo_line (store_line line buf) mode ret = Inr (mode', ret', ev)"
          using Inr b by simp
        have "mode' = VM_NOTSET \<or> mode' = VM_MBARE"
          using cpuinfo_line_mode[OF step] less.prems(2) by auto
        moreover have "cpuinfo_loop f' (store_line line buf) mode' ret'
                         (tr @ [Fgets (Some line)] @ ev) = Inr (m, r, t)"
          using less.prems(1) unfolding loop_step[OF got True step] .
        ultimately show ?thesis
          by (rule less.hyps[OF shorter, rotated])
      qed
    qed
  qed
qed

text \<open>
  Whenever the pseudo-file can be opened and the scan returns, the mode that is stored is
  \<open>VM_MBARE\<close>: \<open>parse_satp_mode\<close> is handed the line from its colon on, which is none of
  the four names.
\<close>

lemma mode_never_recognised:
  assumes "cpuinfo env = Some f" and "os_uarch_additional_features env s = Inr (uarch, s')"
  shows "val (feats s' satp_mode) = Mode VM_MBARE"
proof -
  from assms obtain mode ret tr where
    loop: "cpuinfo_loop f (line_buffer env) VM_NOTSET None (calls s @ [Fopen True]) =
             Inr (mode, ret, tr)" and
    s': "s' = enable satp_mode (Mode (if mode = VM_NOTSET then VM_MBARE else mode))
                (s\<lparr>calls := tr @ [Fclose]\<rparr>)"
    by (auto simp: os_uarch_additional_features_def Let_def split: sum.splits)
  have "mode = VM_NOTSET \<or> mode = VM_MBARE"
    using cpuinfo_loop_mode[OF loop] by simp
  then have "(if mode = VM_NOTSET then VM_MBARE else mode) = VM_MBARE"
    by auto
  then show ?thesis
    by (simp add: s' enable_def enable_feature_def)
qed

text \<open>
  Claim C4, on the code. With the pseudo-file of the spec's scenario, whose first line is
  \<open>mmu : sv48\<close>, the translation-mode entry is enabled with the value \<open>VM_MBARE\<close>, where
  the claim says \<open>VM_SV48\<close>. This holds from every registry state.
\<close>

theorem mmu_sv48_read_as_bare:
  "map_sum (\<lambda>e. e) (\<lambda>(uarch, s'). (enabled (feats s' satp_mode), val (feats s' satp_mode)))
     (os_uarch_additional_features cpuinfo_sv48_u74 s) = Inr (True, Mode VM_MBARE)"
  by (simp add: os_uarch_sv48_u74 enable_def enable_feature_def)

text \<open>
  Claim C9, on the code. With the line \<open>uarch : sifive-u74\<close> the name handed back is
  \<open>sifive-u74\<close> followed by the newline, where the claim says it has no trailing newline;
  the terminator is stored at the index of the newline counted from the colon, two
  characters too far. That name and a comma are then put before the base tag.
\<close>

theorem uarch_name_keeps_newline:
  "map_sum (\<lambda>e. e) fst (os_uarch_additional_features cpuinfo_sv48_u74 s) =
     Inr (Some ''sifive-u74\<newline>'') \<and>
   map_sum (\<lambda>e. e) features_string
     (setup_cpu_available_features True cpuinfo_sv48_u74 example_registry) =
     Inr (Some ''sifive-u74\<newline>,rv64'')"
  by (simp add: os_uarch_sv48_u74 setup_sv48_u74)

subsection \<open>A line that ends at its colon\<close>

text \<open>
  When the last line of the file has no newline and ends at the colon of \<open>uarch:\<close>, the
  name is copied from behind the line's terminator. After the line \<open>mmu : sv48\<close> those
  bytes are \<open>v48\<close> and the newline, left there by the call of \<open>fgets\<close> before, and the
  terminator is stored at index one: the name is \<open>v\<close>. With the two lines in the other
  order, the newline behind the colon is followed by the terminator, and the name is
  empty. When the line \<open>uarch:\<close> without newline is the only one of the file, the bytes are
  those the array had when the scan started; here none of them is a NUL, and the copy
  leaves the array. And when a \<open>uarch\<close> line is so long that \<open>fgets\<close> cuts it behind its
  colon, at 511 bytes, the copy starts behind the array.
\<close>

lemma name_from_earlier_line:
  "cpuinfo_loop (''mmu : sv48\<newline>'' @ ''uarch:'') (line_buffer cpuinfo_sv48_u74)
     VM_NOTSET None [] =
   Inr (VM_MBARE, Some ''v'',
        [Fgets (Some ''mmu : sv48\<newline>''), Fgets (Some ''uarch:''), Fgets None])"
  by code_simp

lemma name_first_is_empty:
  "cpuinfo_loop (''uarch:\<newline>'' @ ''mmu : sv48'') (line_buffer cpuinfo_sv48_u74)
     VM_NOTSET None [] =
   Inr (VM_MBARE, Some [],
        [Fgets (Some ''uarch:\<newline>''), Store_outside_block, Fgets (Some ''mmu : sv48''),
         Fgets None])"
  by code_simp

lemma name_from_unwritten_bytes:
  "cpuinfo_loop ''uarch:'' (line_buffer cpuinfo_sv48_u74) VM_NOTSET None [] =
   Inl Read_past_array"
  by code_simp

lemma name_beyond_the_array:
  "cpuinfo_loop (''uarch'' @ replicate 505 CHR '' '' @ '':x\<newline>'')
     (line_buffer cpuinfo_sv48_u74) VM_NOTSET None [] =
   Inl Read_past_array"
  by code_simp

subsection \<open>Halting, order and absence\<close>

text \<open>
  Claim C7 as stated fails in three ways. On the scenario's pseudo-file both fields have
  been found at its second line, and the trace shows one more \<open>fgets\<close>, which returned the
  third line. For the two lines \<open>mmu : sv48\<close> and \<open>uarch:\<close> in a file whose last line has no
  newline, the name depends on their order: with the \<open>uarch:\<close> line last it is copied from
  what the line before left in the array and is \<open>v\<close>, with that line first it is empty.
  And for a \<open>uarch\<close> line of 513 bytes with its colon at byte 511 the scan has no result:
  the copy of the name starts behind the array.
\<close>

theorem scan_as_stated_counterexample:
  "cpuinfo_loop scenario_cpuinfo (line_buffer cpuinfo_sv48_u74) VM_NOTSET None [] =
     Inr (VM_MBARE, Some ''sifive-u74\<newline>'',
          [Fgets (Some ''mmu : sv48\<newline>''),
           Fgets (Some ''uarch : sifive-u74\<newline>''), Store_outside_block,
           Fgets (Some ''isa : rv64imafdc\<newline>'')]) \<and>
   scanned (cpuinfo_loop (''mmu : sv48\<newline>'' @ ''uarch:'') (line_buffer cpuinfo_sv48_u74)
              VM_NOTSET None []) = Inr (VM_MBARE, Some ''v'') \<and>
   scanned (cpuinfo_loop (''uarch:\<newline>'' @ ''mmu : sv48'') (line_buffer cpuinfo_sv48_u74)
              VM_NOTSET None []) = Inr (VM_MBARE, Some []) \<and>
   cpuinfo_loop (''uarch'' @ replicate 505 CHR '' '' @ '':x\<newline>'')
     (line_buffer cpuinfo_sv48_u74) VM_NOTSET None [] = Inl Read_past_array"
  unfolding scanned_def scan_sv48_u74 name_from_earlier_line name_first_is_empty
    name_beyond_the_array
  by simp

text \<open>
  Claim C7, amended. Once both fields have been found, the loop makes exactly one more
  call of \<open>fgets\<close>, does not look at what it returned and hands the two fields back
  unchanged, whatever is left in the file and whatever the array holds. For a file of
  lines of text, from the start and whatever the array holds:

  \<^item> when \<open>l\<close> is the first line at which both fields have been found, the calls of \<open>fgets\<close>
    return the lines up to \<open>l\<close>, then the line behind \<open>l\<close>, or nothing when \<open>l\<close> is the last,
    and that was the last call;

  \<^item> the scan returns, and its two fields are \<open>found_mode\<close> and \<open>found_uarch\<close> of the lines;
    with the \<open>uarch\<close> lines taken out of the file the name is unset and the mode is the
    same, with the \<open>mmu\<close> lines taken out the mode is unset and the name is the same, and
    with both taken out both are unset;

  \<^item> when an \<open>mmu\<close> line and a \<open>uarch\<close> line change places, with any lines before, behind
    and between them, those between them having neither key, the two fields are the
    same.
\<close>

theorem scan_halts_and_ignores_order:
  "(mode \<noteq> VM_NOTSET \<and> ret \<noteq> None \<longrightarrow>
      cpuinfo_loop f buf mode ret tr =
        Inr (mode, ret, tr @ [Fgets (map_option fst (fgets 512 f))])) \<and>
   (list_all text_line (before @ l # after) \<and> \<not> both_found before \<and>
    both_found (before @ [l]) \<longrightarrow>
      map_sum (\<lambda>e. e) (\<lambda>(m, r, t). fetched t)
        (cpuinfo_loop (concat (before @ l # after)) buf VM_NOTSET None tr) =
      Inr (fetched tr @ map Some (before @ [l]) @
           [case after of [] \<Rightarrow> None | a # rest \<Rightarrow> Some a])) \<and>
   (list_all text_line ls \<longrightarrow>
      scanned (cpuinfo_loop (concat ls) buf VM_NOTSET None tr) =
        Inr (found_mode VM_NOTSET ls, found_uarch None ls) \<and>
      scanned (cpuinfo_loop (concat (filter (\<lambda>l. \<not> is_uarch l) ls)) buf VM_NOTSET None tr) =
        Inr (found_mode VM_NOTSET ls, None) \<and>
      scanned (cpuinfo_loop (concat (filter (\<lambda>l. \<not> is_mmu l) ls)) buf VM_NOTSET None tr) =
        Inr (VM_NOTSET, found_uarch None ls) \<and>
      scanned (cpuinfo_loop (concat (filter (\<lambda>l. \<not> is_mmu l \<and> \<not> is_uarch l) ls)) buf
                 VM_NOTSET None tr) =
        Inr (VM_NOTSET, None)) \<and>
   (list_all text_line (pre @ l1 # mid @ l2 # post) \<and> is_mmu l1 \<and> is_uarch l2 \<and>
    list_all (\<lambda>l. \<not> is_mmu l \<and> \<not> is_uarch l) mid \<longrightarrow>
      scanned (cpuinfo_loop (concat (pre @ l1 # mid @ l2 # post)) buf VM_NOTSET None tr) =
      scanned (cpuinfo_loop (concat (pre @ l2 # mid @ l1 # post)) buf' VM_NOTSET None tr'))"
proof (intro conjI impI)
  assume "mode \<noteq> VM_NOTSET \<and> ret \<noteq> None"
  then show "cpuinfo_loop f buf mode ret tr =
        Inr (mode, ret, tr @ [Fgets (map_option fst (fgets 512 f))])"
    by (intro loop_halts) simp_all
next
  assume "list_all text_line (before @ l # after) \<and> \<not> both_found before \<and>
    both_found (before @ [l])"
  then have "list_all text_line (before @ l # after)" "\<not> both_found before"
    "both_found (before @ [l])"
    by simp_all
  then show "map_sum (\<lambda>e. e) (\<lambda>(m, r, t). fetched t)
        (cpuinfo_loop (concat (before @ l # after)) buf VM_NOTSET None tr) =
      Inr (fetched tr @ map Some (before @ [l]) @
           [case after of [] \<Rightarrow> None | a # rest \<Rightarrow> Some a])"
    by (rule scan_fetched)
next
  assume "list_all text_line ls"
  then show "scanned (cpuinfo_loop (concat ls) buf VM_NOTSET None tr) =
        Inr (found_mode VM_NOTSET ls, found_uarch None ls)"
    by (rule cpuinfo_loop_text)
next
  assume "list_all text_line ls"
  then show "scanned (cpuinfo_loop (concat (filter (\<lambda>l. \<not> is_uarch l) ls)) buf
                        VM_NOTSET None tr) = Inr (found_mode VM_NOTSET ls, None)"
    by (rule scan_without_uarch)
next
  assume "list_all text_line ls"
  then show "scanned (cpuinfo_loop (concat (filter (\<lambda>l. \<not> is_mmu l) ls)) buf
                        VM_NOTSET None tr) = Inr (VM_NOTSET, found_uarch None ls)"
    by (rule scan_without_mmu)
next
  assume "list_all text_line ls"
  then show "scanned (cpuinfo_loop (concat (filter (\<lambda>l. \<not> is_mmu l \<and> \<not> is_uarch l) ls)) buf
                        VM_NOTSET None tr) = Inr (VM_NOTSET, None)"
    by (rule scan_without_both)
next
  assume "list_all text_line (pre @ l1 # mid @ l2 # post) \<and> is_mmu l1 \<and> is_uarch l2 \<and>
    list_all (\<lambda>l. \<not> is_mmu l \<and> \<not> is_uarch l) mid"
  then show "scanned (cpuinfo_loop (concat (pre @ l1 # mid @ l2 # post)) buf VM_NOTSET None tr) =
      scanned (cpuinfo_loop (concat (pre @ l2 # mid @ l1 # post)) buf' VM_NOTSET None tr')"
    by (intro scan_swap) simp_all
qed

lemma fgets_rest:
  "fgets 512 (''isa : rv64imafdc\<newline>'' @ ''hart : 0\<newline>'') =
     Some (''isa : rv64imafdc\<newline>'', ''hart : 0\<newline>'')"
  by code_simp

lemma scenario_text_lines:
  "list_all text_line
     [''mmu : sv48\<newline>'', ''isa : rv64imafdc\<newline>'', ''uarch : sifive-u74\<newline>'',
      ''hart : 0\<newline>'']"
  by code_simp

lemma scenario_keys:
  "is_mmu ''mmu : sv48\<newline>''" "is_uarch ''uarch : sifive-u74\<newline>''"
  "\<not> is_uarch ''mmu : sv48\<newline>''" "\<not> is_mmu ''uarch : sifive-u74\<newline>''"
  "\<not> is_mmu ''isa : rv64imafdc\<newline>''" "\<not> is_uarch ''isa : rv64imafdc\<newline>''"
  "\<not> is_mmu ''hart : 0\<newline>''" "\<not> is_uarch ''hart : 0\<newline>''"
  by (simp_all add: is_mmu_def is_uarch_def)

lemma scenario_found:
  "found_mode VM_NOTSET
     [''mmu : sv48\<newline>'', ''isa : rv64imafdc\<newline>'', ''uarch : sifive-u74\<newline>'',
      ''hart : 0\<newline>''] = VM_MBARE"
  "found_uarch None
     [''mmu : sv48\<newline>'', ''isa : rv64imafdc\<newline>'', ''uarch : sifive-u74\<newline>'',
      ''hart : 0\<newline>''] = Some ''sifive-u74\<newline>''"
  "\<not> both_found [''mmu : sv48\<newline>'', ''isa : rv64imafdc\<newline>'']"
  "both_found [''mmu : sv48\<newline>'', ''isa : rv64imafdc\<newline>'', ''uarch : sifive-u74\<newline>'']"
  by code_simp+

text \<open>
  The hypotheses of C7 hold at the point the scenario's scan has reached after two lines,
  and for the scenario's four lines with the third put between the first two. Both fields
  have been found at the third of these lines and the fourth is fetched; the two fields
  are the same with the \<open>mmu\<close> line and the \<open>uarch\<close> line in either order, and a field whose
  line is taken out is unset.
\<close>

theorem scan_halts_and_ignores_order_witness:
  "VM_MBARE \<noteq> VM_NOTSET \<and> Some ''sifive-u74\<newline>'' \<noteq> None \<and>
   cpuinfo_loop (''isa : rv64imafdc\<newline>'' @ ''hart : 0\<newline>'')
     (line_buffer cpuinfo_sv48_u74) VM_MBARE (Some ''sifive-u74\<newline>'') [] =
     Inr (VM_MBARE, Some ''sifive-u74\<newline>'', [Fgets (Some ''isa : rv64imafdc\<newline>'')]) \<and>
   list_all text_line
     [''mmu : sv48\<newline>'', ''isa : rv64imafdc\<newline>'', ''uarch : sifive-u74\<newline>'',
      ''hart : 0\<newline>''] \<and>
   \<not> both_found [''mmu : sv48\<newline>'', ''isa : rv64imafdc\<newline>''] \<and>
   both_found [''mmu : sv48\<newline>'', ''isa : rv64imafdc\<newline>'', ''uarch : sifive-u74\<newline>''] \<and>
   map_sum (\<lambda>e. e) (\<lambda>(m, r, t). fetched t)
     (cpuinfo_loop
        (concat [''mmu : sv48\<newline>'', ''isa : rv64imafdc\<newline>'',
                 ''uarch : sifive-u74\<newline>'', ''hart : 0\<newline>''])
        (line_buffer cpuinfo_sv48_u74) VM_NOTSET None []) =
     Inr [Some ''mmu : sv48\<newline>'', Some ''isa : rv64imafdc\<newline>'',
          Some ''uarch : sifive-u74\<newline>'', Some ''hart : 0\<newline>''] \<and>
   is_mmu ''mmu : sv48\<newline>'' \<and> is_uarch ''uarch : sifive-u74\<newline>'' \<and>
   list_all (\<lambda>l. \<not> is_mmu l \<and> \<not> is_uarch l) [''isa : rv64imafdc\<newline>''] \<and>
   scanned (cpuinfo_loop
      (concat [''mmu : sv48\<newline>'', ''isa : rv64imafdc\<newline>'',
               ''uarch : sifive-u74\<newline>'', ''hart : 0\<newline>''])
      (line_buffer cpuinfo_sv48_u74) VM_NOTSET None []) =
     Inr (VM_MBARE, Some ''sifive-u74\<newline>'') \<and>
   scanned (cpuinfo_loop
      (concat [''uarch : sifive-u74\<newline>'', ''isa : rv64imafdc\<newline>'',
               ''mmu : sv48\<newline>'', ''hart : 0\<newline>''])
      (line_buffer cpuinfo_sv48_u74) VM_NOTSET None []) =
     Inr (VM_MBARE, Some ''sifive-u74\<newline>'') \<and>
   scanned (cpuinfo_loop
      (concat [''mmu : sv48\<newline>'', ''isa : rv64imafdc\<newline>'', ''hart : 0\<newline>''])
      (line_buffer cpuinfo_sv48_u74) VM_NOTSET None []) =
     Inr (VM_MBARE, None) \<and>
   scanned (cpuinfo_loop
      (concat [''isa : rv64imafdc\<newline>'', ''uarch : sifive-u74\<newline>'', ''hart : 0\<newline>''])
      (line_buffer cpuinfo_sv48_u74) VM_NOTSET None []) =
     Inr (VM_NOTSET, Some ''sifive-u74\<newline>'') \<and>
   scanned (cpuinfo_loop
      (concat [''isa : rv64imafdc\<newline>'', ''hart : 0\<newline>''])
      (line_buffer cpuinfo_sv48_u74) VM_NOTSET None []) =
     Inr (VM_NOTSET, None)"
  using scan_halts_and_ignores_order[where mode = VM_MBARE and ret = "Some ''sifive-u74\<newline>''"
      and f = "''isa : rv64imafdc\<newline>'' @ ''hart : 0\<newline>''"
      and buf = "line_buffer cpuinfo_sv48_u74" and tr = "[]"
      and before = "[''mmu : sv48\<newline>'', ''isa : rv64imafdc\<newline>'']"
      and l = "''uarch : sifive-u74\<newline>''" and after = "[''hart : 0\<newline>'']"
      and ls = "[''mmu : sv48\<newline>'', ''isa : rv64imafdc\<newline>'', ''uarch : sifive-u74\<newline>'',
                 ''hart : 0\<newline>'']"
      and pre = "[]" and ?l1.0 = "''mmu : sv48\<newline>''" and mid = "[''isa : rv64imafdc\<newline>'']"
      and ?l2.0 = "''uarch : sifive-u74\<newline>''" and post = "[''hart : 0\<newline>'']"
      and buf' = "line_buffer cpuinfo_sv48_u74" and tr' = "[]"]
    fgets_rest scenario_text_lines scenario_keys scenario_found
  by (auto simp: fetched_def)

end
